theory Spec2Isabelle
  imports Main
begin

section \<open>Characters and strings as Python sees them\<close>

text \<open>
  The analysed file is \<^verbatim>\<open>scripts/analyze_logs.py\<close>. Its strings are modelled as
  \<^typ>\<open>string\<close>, one \<^typ>\<open>char\<close> per code point below 256 (Latin-1); on these the
  predicates below are Python's \<^verbatim>\<open>str.isspace\<close>, the classes \<^verbatim>\<open>\d\<close>, \<^verbatim>\<open>\w\<close> of
  the \<^verbatim>\<open>re\<close> module on \<^verbatim>\<open>str\<close> patterns, and \<^verbatim>\<open>str.lower\<close>.
\<close>

definition code :: "char \<Rightarrow> int" where
  "code c = of_char c"

definition is_digit :: "char \<Rightarrow> bool" where
  "is_digit c = (48 \<le> code c \<and> code c \<le> 57)"

definition is_space :: "char \<Rightarrow> bool" where
  "is_space c = ((9 \<le> code c \<and> code c \<le> 13) \<or> (28 \<le> code c \<and> code c \<le> 32)
                 \<or> code c = 133 \<or> code c = 160)"

definition is_word :: "char \<Rightarrow> bool" where
  "is_word c = (let n = code c in
     (48 \<le> n \<and> n \<le> 57) \<or> (65 \<le> n \<and> n \<le> 90) \<or> n = 95 \<or> (97 \<le> n \<and> n \<le> 122)
     \<or> n = 170 \<or> n = 178 \<or> n = 179 \<or> n = 181 \<or> n = 185 \<or> n = 186
     \<or> (188 \<le> n \<and> n \<le> 190) \<or> (192 \<le> n \<and> n \<le> 214) \<or> (216 \<le> n \<and> n \<le> 246)
     \<or> 248 \<le> n)"

definition lower_char :: "char \<Rightarrow> char" where
  "lower_char c = (let n = code c in
     if (65 \<le> n \<and> n \<le> 90) \<or> (192 \<le> n \<and> n \<le> 214) \<or> (216 \<le> n \<and> n \<le> 222)
     then char_of (n + 32) else c)"

definition lower :: "string \<Rightarrow> string" where
  "lower s = map lower_char s"

definition strip :: "string \<Rightarrow> string" where
  "strip s = rev (dropWhile is_space (rev (dropWhile is_space s)))"

fun starts_with :: "string \<Rightarrow> string \<Rightarrow> bool" where
  "starts_with [] s = True"
| "starts_with (k # ks) [] = False"
| "starts_with (k # ks) (c # cs) = (k = c \<and> starts_with ks cs)"

text \<open>\<^verbatim>\<open>k in s\<close> on strings: \<open>k\<close> occurs in \<open>s\<close> as a contiguous substring.\<close>

fun is_in :: "string \<Rightarrow> string \<Rightarrow> bool" where
  "is_in k [] = (k = [])"
| "is_in k (c # cs) = (starts_with k (c # cs) \<or> is_in k cs)"


section \<open>Regular expressions of the \<^verbatim>\<open>re\<close> module\<close>

text \<open>
  Every pattern of the source is built from literals, character classes, sequencing,
  alternation, capturing groups, and quantifiers applied to a single character class.
  \<open>run\<close> lists, in the priority order of Python's backtracking matcher, every way the
  pattern can match at the start of the text: the rest of the text and the groups
  captured. \<^verbatim>\<open>re.match\<close> takes the first; \<^verbatim>\<open>re.search\<close> tries each start position
  from the left. The flag \<open>ic\<close> is \<^verbatim>\<open>re.IGNORECASE\<close>.
\<close>

datatype atom = Digit | Wordc | Spacec | Ch char | Range char char

datatype cls = Dot | Is atom | OneOf "atom list" | NoneOf "atom list"

datatype rx =
    Lit string
  | Cls cls
  | Rep cls nat "nat option" bool
  | Seq rx rx
  | Alt rx rx
  | Grp nat rx

fun atom_ok :: "bool \<Rightarrow> atom \<Rightarrow> char \<Rightarrow> bool" where
  "atom_ok ic Digit c = is_digit c"
| "atom_ok ic Wordc c = is_word c"
| "atom_ok ic Spacec c = is_space c"
| "atom_ok ic (Ch k) c = (if ic then lower_char k = lower_char c else k = c)"
| "atom_ok ic (Range a b) c = (code a \<le> code c \<and> code c \<le> code b)"

fun cls_ok :: "bool \<Rightarrow> cls \<Rightarrow> char \<Rightarrow> bool" where
  "cls_ok ic Dot c = (c \<noteq> CHR 0x0A)"
| "cls_ok ic (Is a) c = atom_ok ic a c"
| "cls_ok ic (OneOf as) c = (\<exists>a \<in> set as. atom_ok ic a c)"
| "cls_ok ic (NoneOf as) c = (\<not> (\<exists>a \<in> set as. atom_ok ic a c))"

fun lit_ok :: "bool \<Rightarrow> string \<Rightarrow> string \<Rightarrow> bool" where
  "lit_ok ic [] s = True"
| "lit_ok ic (k # ks) [] = False"
| "lit_ok ic (k # ks) (c # cs) = (atom_ok ic (Ch k) c \<and> lit_ok ic ks cs)"

text \<open>
  The repetition counts a quantifier \<open>{lo,hi}\<close> tries when the class holds for the first
  \<open>m\<close> characters of the text: greedy from the most, lazy from the fewest.
\<close>

definition rep_counts :: "nat \<Rightarrow> nat option \<Rightarrow> bool \<Rightarrow> nat \<Rightarrow> nat list" where
  "rep_counts lo hi greedy m =
     (let top = (case hi of None \<Rightarrow> m | Some h \<Rightarrow> min h m);
          counts = [lo..<Suc top]
      in if greedy then rev counts else counts)"

type_synonym groups = "(nat \<times> string) list"

fun run :: "bool \<Rightarrow> rx \<Rightarrow> string \<times> groups \<Rightarrow> (string \<times> groups) list" where
  "run ic (Lit l) (s, g) = (if lit_ok ic l s then [(drop (length l) s, g)] else [])"
| "run ic (Cls c) (s, g) =
     (case s of [] \<Rightarrow> [] | x # xs \<Rightarrow> if cls_ok ic c x then [(xs, g)] else [])"
| "run ic (Rep c lo hi greedy) (s, g) =
     map (\<lambda>n. (drop n s, g)) (rep_counts lo hi greedy (length (takeWhile (cls_ok ic c) s)))"
| "run ic (Seq a b) st = concat (map (run ic b) (run ic a st))"
| "run ic (Alt a b) st = run ic a st @ run ic b st"
| "run ic (Grp n r) (s, g) =
     map (\<lambda>(s', g'). (s', (n, take (length s - length s') s) # g')) (run ic r (s, g))"

definition re_match :: "bool \<Rightarrow> rx \<Rightarrow> string \<Rightarrow> (string \<times> groups) option" where
  "re_match ic r s = (case run ic r (s, []) of [] \<Rightarrow> None | m # _ \<Rightarrow> Some m)"

fun re_search :: "bool \<Rightarrow> rx \<Rightarrow> string \<Rightarrow> (string \<times> groups) option" where
  "re_search ic r [] = re_match ic r []"
| "re_search ic r (c # cs) =
     (case re_match ic r (c # cs) of Some m \<Rightarrow> Some m | None \<Rightarrow> re_search ic r cs)"

text \<open>\<^verbatim>\<open>match.group(n)\<close>: the text of group \<open>n\<close>, \<^verbatim>\<open>None\<close> when it took no part.\<close>

definition group :: "groups \<Rightarrow> nat \<Rightarrow> string option" where
  "group g n = map_of g n"

fun seqs :: "rx list \<Rightarrow> rx" where
  "seqs [] = Lit []"
| "seqs [r] = r"
| "seqs (r # rs) = Seq r (seqs rs)"

abbreviation star :: "cls \<Rightarrow> rx" where "star c \<equiv> Rep c 0 None True"
abbreviation plus :: "cls \<Rightarrow> rx" where "plus c \<equiv> Rep c 1 None True"
abbreviation lazy_star :: "cls \<Rightarrow> rx" where "lazy_star c \<equiv> Rep c 0 None False"
abbreviation times :: "nat \<Rightarrow> cls \<Rightarrow> rx" where "times n c \<equiv> Rep c n (Some n) True"

subsection \<open>The three line formats\<close>

text \<open>\<^verbatim>\<open>\d{4}-\d{2}-\d{2} \d{2}:\d{2}:\d{2}\.\d{3}\<close>, the timestamp every format captures.\<close>

definition ts_rx :: rx where
  "ts_rx = seqs [times 4 (Is Digit), Lit ''-'', times 2 (Is Digit), Lit ''-'',
                 times 2 (Is Digit), Lit '' '', times 2 (Is Digit), Lit '':'',
                 times 2 (Is Digit), Lit '':'', times 2 (Is Digit), Lit ''.'',
                 times 3 (Is Digit)]"

text \<open>\<^verbatim>\<open>(ts)\s*\|\s*(\w+)\s*\|\s*(.*?)\s*\|\s*(.*)\<close>\<close>

definition log_pattern :: rx where
  "log_pattern = seqs [Grp 1 ts_rx, star (Is Spacec), Lit ''|'', star (Is Spacec),
                       Grp 2 (plus (Is Wordc)), star (Is Spacec), Lit ''|'', star (Is Spacec),
                       Grp 3 (lazy_star Dot), star (Is Spacec), Lit ''|'', star (Is Spacec),
                       Grp 4 (star Dot)]"

text \<open>\<^verbatim>\<open>\[(ts)\]\s+\[(\w+)\]\s+(.*)\<close>\<close>

definition filelogger_pattern :: rx where
  "filelogger_pattern = seqs [Lit ''['', Grp 1 ts_rx, Lit '']'', plus (Is Spacec),
                              Lit ''['', Grp 2 (plus (Is Wordc)), Lit '']'', plus (Is Spacec),
                              Grp 3 (star Dot)]"

text \<open>\<^verbatim>\<open>(ts)\s+(.*)\<close>\<close>

definition simple_pattern :: rx where
  "simple_pattern = seqs [Grp 1 ts_rx, plus (Is Spacec), Grp 2 (star Dot)]"


section \<open>Timestamps: \<^verbatim>\<open>datetime.strptime\<close>\<close>

text \<open>
  A naive \<^verbatim>\<open>datetime\<close> is modelled by its number of microseconds since
  0001-01-01 00:00:00 in the proleptic Gregorian calendar, so that comparing two of them
  is comparing integers and their difference is the \<^verbatim>\<open>timedelta\<close> in microseconds.
  \<open>ymd2ord\<close> and the range checks are those of CPython's \<^verbatim>\<open>datetime\<close> module; the
  patterns are the ones CPython's \<^verbatim>\<open>_strptime\<close> builds for the two format strings of the
  source (whitespace in a format becomes \<^verbatim>\<open>\s+\<close>, the pattern is compiled with
  \<^verbatim>\<open>IGNORECASE\<close>, and text left over after the match is an error).
\<close>

datatype py_error = ValueError | IndexError

type_synonym datetime = int

definition is_leap :: "int \<Rightarrow> bool" where
  "is_leap y = (y mod 4 = 0 \<and> (y mod 100 \<noteq> 0 \<or> y mod 400 = 0))"

definition days_in_month :: "int \<Rightarrow> int \<Rightarrow> int" where
  "days_in_month y m =
     (if m = 2 then (if is_leap y then 29 else 28)
      else if m = 4 \<or> m = 6 \<or> m = 9 \<or> m = 11 then 30 else 31)"

definition days_before_year :: "int \<Rightarrow> int" where
  "days_before_year y = (let p = y - 1 in p * 365 + p div 4 - p div 100 + p div 400)"

definition days_before_month :: "int \<Rightarrow> int \<Rightarrow> int" where
  "days_before_month y m = sum_list (map (days_in_month y) [1..m - 1])"

definition ymd2ord :: "int \<Rightarrow> int \<Rightarrow> int \<Rightarrow> int" where
  "ymd2ord y m d = days_before_year y + days_before_month y m + d"

definition mk_datetime ::
  "int \<Rightarrow> int \<Rightarrow> int \<Rightarrow> int \<Rightarrow> int \<Rightarrow> int \<Rightarrow> int \<Rightarrow> py_error + datetime" where
  "mk_datetime y m d H M S us =
     (if 1 \<le> y \<and> y \<le> 9999 \<and> 1 \<le> m \<and> m \<le> 12 \<and> 1 \<le> d \<and> d \<le> days_in_month y m
         \<and> 0 \<le> H \<and> H \<le> 23 \<and> 0 \<le> M \<and> M \<le> 59 \<and> 0 \<le> S \<and> S \<le> 59
         \<and> 0 \<le> us \<and> us \<le> 999999
      then Inr (((((ymd2ord y m d - 1) * 24 + H) * 60 + M) * 60 + S) * 1000000 + us)
      else Inl ValueError)"

text \<open>
  \<^verbatim>\<open>int(s)\<close> on the text of a directive: decimal digits, with the blank that \<^verbatim>\<open>%d\<close>
  admits before a one-digit day stripped as \<^verbatim>\<open>int\<close> does.
\<close>

definition int_of_digits :: "string \<Rightarrow> int" where
  "int_of_digits s = foldl (\<lambda>n c. 10 * n + (code c - 48)) 0 (strip s)"

fun alts :: "rx list \<Rightarrow> rx" where
  "alts [] = Lit []"
| "alts [r] = r"
| "alts (r # rs) = Alt r (alts rs)"

abbreviation dig :: rx where "dig \<equiv> Cls (Is Digit)"
abbreviation rng :: "char \<Rightarrow> char \<Rightarrow> rx" where "rng a b \<equiv> Cls (Is (Range a b))"

text \<open>
  The directives, with group numbers for the names: 1 \<^verbatim>\<open>Y\<close>, 2 \<^verbatim>\<open>m\<close>, 3 \<^verbatim>\<open>d\<close>,
  4 \<^verbatim>\<open>H\<close>, 5 \<^verbatim>\<open>M\<close>, 6 \<^verbatim>\<open>S\<close>, 7 \<^verbatim>\<open>f\<close>.
\<close>

definition dir_Y :: rx where
  "dir_Y = Grp 1 (seqs [dig, dig, dig, dig])"

definition dir_m :: rx where
  "dir_m = Grp 2 (alts [Seq (Lit ''1'') (rng CHR ''0'' CHR ''2''),
                        Seq (Lit ''0'') (rng CHR ''1'' CHR ''9''),
                        rng CHR ''1'' CHR ''9''])"

definition dir_d :: rx where
  "dir_d = Grp 3 (alts [Seq (Lit ''3'') (rng CHR ''0'' CHR ''1''),
                        Seq (rng CHR ''1'' CHR ''2'') dig,
                        Seq (Lit ''0'') (rng CHR ''1'' CHR ''9''),
                        rng CHR ''1'' CHR ''9'',
                        Seq (Lit '' '') (rng CHR ''1'' CHR ''9'')])"

definition dir_H :: rx where
  "dir_H = Grp 4 (alts [Seq (Lit ''2'') (rng CHR ''0'' CHR ''3''),
                        Seq (rng CHR ''0'' CHR ''1'') dig,
                        dig])"

definition dir_M :: rx where
  "dir_M = Grp 5 (alts [Seq (rng CHR ''0'' CHR ''5'') dig, dig])"

definition dir_S :: rx where
  "dir_S = Grp 6 (alts [Seq (Lit ''6'') (rng CHR ''0'' CHR ''1''),
                        Seq (rng CHR ''0'' CHR ''5'') dig,
                        dig])"

definition dir_f :: rx where
  "dir_f = Grp 7 (Rep (Is (Range CHR ''0'' CHR ''9'')) 1 (Some 6) True)"

text \<open>The pattern of \<^verbatim>\<open>'%Y-%m-%d %H:%M:%S'\<close>.\<close>

definition whole_second_rx :: rx where
  "whole_second_rx = seqs [dir_Y, Lit ''-'', dir_m, Lit ''-'', dir_d, plus (Is Spacec),
                           dir_H, Lit '':'', dir_M, Lit '':'', dir_S]"

text \<open>The pattern of \<^verbatim>\<open>'%Y-%m-%d %H:%M:%S.%f'\<close>.\<close>

definition fractional_rx :: rx where
  "fractional_rx = Seq whole_second_rx (Seq (Lit ''.'') dir_f)"

text \<open>
  A group that took no part in the match reads as the empty string; in every pattern of
  this file each group lies on every path through the pattern.
\<close>

definition grp :: "groups \<Rightarrow> nat \<Rightarrow> string" where
  "grp g n = (case group g n of None \<Rightarrow> [] | Some s \<Rightarrow> s)"

definition strptime :: "rx \<Rightarrow> string \<Rightarrow> py_error + datetime" where
  "strptime format_regex data_string =
     (case re_match True format_regex data_string of
        None \<Rightarrow> Inl ValueError
      | Some (rest, found) \<Rightarrow>
          if rest \<noteq> [] then Inl ValueError
          else let f = grp found 7;
                   fraction = (if group found 7 = None then 0
                               else int_of_digits (f @ replicate (6 - length f) CHR ''0''))
               in mk_datetime (int_of_digits (grp found 1)) (int_of_digits (grp found 2))
                    (int_of_digits (grp found 3)) (int_of_digits (grp found 4))
                    (int_of_digits (grp found 5)) (int_of_digits (grp found 6)) fraction)"


section \<open>The data model\<close>

datatype ExtensionType = UNIPLAYSONG | PLAYNITESOUND | UNKNOWN

datatype EventType =
    ON_GAME_SELECTED
  | ON_APPLICATION_STARTED
  | ON_SETTINGS_CHANGED
  | VIDEO_IS_PLAYING_CHANGED
  | SHOULD_PLAY_MUSIC
  | SHOULD_PLAY_AUDIO
  | PLAY_MUSIC_BASED_ON_SELECTED
  | PAUSE_MUSIC
  | RESUME_MUSIC
  | FIRST_SELECT_STATE
  | MEDIA_ELEMENTS_MONITOR
  | ON_MAIN_MODEL_CHANGED
  | OTHER

text \<open>The members of the enumeration \<^verbatim>\<open>EventType\<close>, in definition order.\<close>

definition event_types :: "EventType list" where
  "event_types = [ON_GAME_SELECTED, ON_APPLICATION_STARTED, ON_SETTINGS_CHANGED,
     VIDEO_IS_PLAYING_CHANGED, SHOULD_PLAY_MUSIC, SHOULD_PLAY_AUDIO,
     PLAY_MUSIC_BASED_ON_SELECTED, PAUSE_MUSIC, RESUME_MUSIC, FIRST_SELECT_STATE,
     MEDIA_ELEMENTS_MONITOR, ON_MAIN_MODEL_CHANGED, OTHER]"

text \<open>A metadata value is a \<^verbatim>\<open>bool\<close> or a \<^verbatim>\<open>str\<close>.\<close>

datatype mval = B bool | S string

text \<open>
  A \<^verbatim>\<open>dict\<close> from field name to value, as an association list in insertion order;
  \<open>dict_set\<close> is the assignment \<^verbatim>\<open>metadata[key] = value\<close>.
\<close>

type_synonym metadata_dict = "(string \<times> mval) list"

fun dict_set :: "string \<Rightarrow> mval \<Rightarrow> metadata_dict \<Rightarrow> metadata_dict" where
  "dict_set key v [] = [(key, v)]"
| "dict_set key v ((k, w) # md) = (if k = key then (k, v) # md else (k, w) # dict_set key v md)"

record LogEvent =
  timestamp :: datetime
  extension :: ExtensionType
  event_type :: EventType
  message :: string
  raw_line :: string
  metadata :: metadata_dict

record LogAnalyzer =
  events :: "LogEvent list"
  uniplaysong_events :: "LogEvent list"
  playnitesound_events :: "LogEvent list"

text \<open>\<^verbatim>\<open>LogAnalyzer.__init__\<close>: the three lists start empty.\<close>

definition init :: LogAnalyzer where
  "init = \<lparr>events = [], uniplaysong_events = [], playnitesound_events = []\<rparr>"

section \<open>\<^verbatim>\<open>_classify_event\<close>\<close>

definition classify_event :: "string \<Rightarrow> EventType" where
  "classify_event msg =
     (let message_lower = lower msg in
      if is_in ''ongameselected'' message_lower \<or> is_in ''on game selected'' message_lower
        then ON_GAME_SELECTED
      else if is_in ''onapplicationstarted'' message_lower
              \<or> is_in ''application started'' message_lower
        then ON_APPLICATION_STARTED
      else if is_in ''onsettingschanged'' message_lower
              \<or> is_in ''on settings changed'' message_lower
        then ON_SETTINGS_CHANGED
      else if is_in ''videoisplaying'' message_lower \<or> is_in ''video is playing'' message_lower
        then VIDEO_IS_PLAYING_CHANGED
      else if is_in ''shouldplaymusic'' message_lower \<or> is_in ''should play music'' message_lower
        then SHOULD_PLAY_MUSIC
      else if is_in ''shouldplayaudio'' message_lower \<or> is_in ''should play audio'' message_lower
        then SHOULD_PLAY_AUDIO
      else if is_in ''playmusicbasedonselected'' message_lower
        then PLAY_MUSIC_BASED_ON_SELECTED
      else if is_in ''pausemusic'' message_lower \<or> is_in ''pause music'' message_lower
        then PAUSE_MUSIC
      else if is_in ''resumemusic'' message_lower \<or> is_in ''resume music'' message_lower
        then RESUME_MUSIC
      else if is_in ''firstselect'' message_lower \<or> is_in ''_firstselect'' message_lower
              \<or> is_in ''first select'' message_lower
        then FIRST_SELECT_STATE
      else if is_in ''mediaelementsmonitor'' message_lower
              \<or> is_in ''media elements monitor'' message_lower
        then MEDIA_ELEMENTS_MONITOR
      else if is_in ''onmainmodelchanged'' message_lower
              \<or> is_in ''on main model changed'' message_lower
        then ON_MAIN_MODEL_CHANGED
      else OTHER)"

section \<open>\<^verbatim>\<open>_extract_metadata\<close>\<close>

text \<open>\<^verbatim>\<open>[:\s]+\<close>, the separator after every field name.\<close>

abbreviation sep :: rx where "sep \<equiv> plus (OneOf [Ch CHR '':'', Spacec])"

abbreviation true_false :: rx where "true_false \<equiv> Alt (Lit ''true'') (Lit ''false'')"

definition first_select_rx :: rx where
  "first_select_rx = seqs [Lit ''FirstSelect'', sep, Grp 1 true_false]"

definition skip_rx :: rx where
  "skip_rx = seqs [Lit ''SkipMusic'', sep, Grp 1 true_false]"

definition video_rx :: rx where
  "video_rx = seqs [Lit ''VideoIsPlaying'', sep,
     Grp 1 (alts [Lit ''true'', Lit ''false'',
                  seqs [Lit ''changing from '', plus (Is Wordc), Lit '' to '', plus (Is Wordc)]])]"

definition game_rx :: rx where
  "game_rx = seqs [Lit ''Game'', sep, Grp 1 (plus (NoneOf [Ch CHR '','', Ch CHR ''(''])) ]"

definition view_rx :: rx where
  "view_rx = seqs [Lit ''ActiveView'', sep, Grp 1 (plus (NoneOf [Spacec, Ch CHR '','']))]"

definition mode_rx :: rx where
  "mode_rx = seqs [Lit ''Mode'', sep, Grp 1 (Alt (Lit ''Desktop'') (Lit ''Fullscreen''))]"

definition should_play_rx :: rx where
  "should_play_rx = seqs [Lit ''ShouldPlayMusic'', sep,
     Grp 1 (Alt (Lit ''returned'') (Lit ''returned:'')), star (Is Spacec), Grp 2 true_false]"

definition should_audio_rx :: rx where
  "should_audio_rx = seqs [Lit ''ShouldPlayAudio'', sep,
     Grp 1 (Alt (Lit ''returned'') (Lit ''returned:'')), star (Is Spacec), Grp 2 true_false]"

text \<open>
  One field of the dictionary: when the pattern is found (\<^verbatim>\<open>re.search\<close> with
  \<^verbatim>\<open>re.IGNORECASE\<close>) the key is bound to a value computed from the groups, otherwise
  the dictionary is left as it is.
\<close>

definition set_field ::
  "rx \<Rightarrow> string \<Rightarrow> string \<Rightarrow> (groups \<Rightarrow> mval) \<Rightarrow> metadata_dict \<Rightarrow> metadata_dict" where
  "set_field r msg key val md =
     (case re_search True r msg of None \<Rightarrow> md | Some (_, g) \<Rightarrow> dict_set key (val g) md)"

definition extract_metadata :: "string \<Rightarrow> EventType \<Rightarrow> metadata_dict" where
  "extract_metadata msg et =
     (let md = [];
          md = set_field first_select_rx msg ''firstSelect''
                 (\<lambda>g. B (lower (grp g 1) = ''true'')) md;
          md = set_field skip_rx msg ''skipMusic'' (\<lambda>g. B (lower (grp g 1) = ''true'')) md;
          md = set_field video_rx msg ''videoIsPlaying'' (\<lambda>g. S (grp g 1)) md;
          md = set_field game_rx msg ''game'' (\<lambda>g. S (strip (grp g 1))) md;
          md = set_field view_rx msg ''activeView'' (\<lambda>g. S (grp g 1)) md;
          md = set_field mode_rx msg ''mode'' (\<lambda>g. S (grp g 1)) md;
          md = set_field should_play_rx msg ''shouldPlayMusic''
                 (\<lambda>g. B (lower (grp g 2) = ''true'')) md;
          md = set_field should_audio_rx msg ''shouldPlayAudio''
                 (\<lambda>g. B (lower (grp g 2) = ''true'')) md
      in md)"

section \<open>\<^verbatim>\<open>_parse_single_log_file\<close>\<close>

text \<open>
  The extension name the bracketed and the bare format take from the text after the
  timestamp: \<^verbatim>\<open>'[UniPlaySong]' in message or 'UniPlaySong' in message\<close> first.
\<close>

definition infer_extension_name :: "string \<Rightarrow> string" where
  "infer_extension_name msg =
     (if is_in ''[UniPlaySong]'' msg \<or> is_in ''UniPlaySong'' msg then ''UniPlaySong''
      else if is_in ''[PlayniteSound]'' msg \<or> is_in ''PlayniteSound'' msg then ''PlayniteSound''
      else ''Unknown'')"

text \<open>
  The three recognizers in the order the source tries them. The result is
  \<open>(timestamp_str, level, extension_name, message)\<close>, or \<open>None\<close> for a line the source
  skips with \<^verbatim>\<open>continue\<close>.
\<close>

definition recognize :: "string \<Rightarrow> (string \<times> string \<times> string \<times> string) option" where
  "recognize line =
     (case re_match False log_pattern line of
        Some (_, g) \<Rightarrow> Some (grp g 1, grp g 2, grp g 3, grp g 4)
      | None \<Rightarrow>
         (case re_match False filelogger_pattern line of
            Some (_, g) \<Rightarrow> Some (grp g 1, grp g 2, infer_extension_name (grp g 3), grp g 3)
          | None \<Rightarrow>
             (case re_match False simple_pattern line of
                Some (_, g) \<Rightarrow> Some (grp g 1, ''INFO'', infer_extension_name (grp g 2), grp g 2)
              | None \<Rightarrow> None)))"

text \<open>
  The two nested \<^verbatim>\<open>try\<close> blocks. Each \<^verbatim>\<open>except ValueError\<close> catches that error
  only, any other would leave the loop body; \<open>Inr None\<close> is the inner \<^verbatim>\<open>continue\<close>.
\<close>

definition parse_timestamp :: "string \<Rightarrow> py_error + datetime option" where
  "parse_timestamp timestamp_str =
     (case strptime fractional_rx timestamp_str of
        Inr t \<Rightarrow> Inr (Some t)
      | Inl ValueError \<Rightarrow>
         (case strptime whole_second_rx timestamp_str of
            Inr t \<Rightarrow> Inr (Some t)
          | Inl ValueError \<Rightarrow> Inr None
          | Inl e \<Rightarrow> Inl e)
      | Inl e \<Rightarrow> Inl e)"

definition determine_extension :: "string \<Rightarrow> string \<Rightarrow> ExtensionType" where
  "determine_extension extension_name msg =
     (if is_in ''UniPlaySong'' extension_name \<or> is_in ''[UniPlaySong]'' msg then UNIPLAYSONG
      else if is_in ''PlayniteSound'' extension_name \<or> is_in ''[PlayniteSound]'' msg
        then PLAYNITESOUND
      else UNKNOWN)"

text \<open>
  The event one line gives rise to, if any: the body of the loop up to the construction of
  the \<^verbatim>\<open>LogEvent\<close>. \<open>Inr None\<close> is each of the \<^verbatim>\<open>continue\<close> statements, \<open>Inl\<close> an
  exception that leaves the loop body.
\<close>

definition line_event :: "string \<Rightarrow> py_error + LogEvent option" where
  "line_event raw =
     (let line = strip raw in
      if line = [] then Inr None
      else case recognize line of
        None \<Rightarrow> Inr None
      | Some (timestamp_str, level, extension_name, msg) \<Rightarrow>
         (case parse_timestamp timestamp_str of
            Inl e \<Rightarrow> Inl e
          | Inr None \<Rightarrow> Inr None
          | Inr (Some ts) \<Rightarrow>
             (let ext = determine_extension extension_name msg in
              if ext = UNKNOWN then Inr None
              else let et = classify_event msg;
                       md = extract_metadata msg et
                   in Inr (Some \<lparr>timestamp = ts, extension = ext, event_type = et,
                                 message = msg, raw_line = line, metadata = md\<rparr>))))"

text \<open>Appending the event to the full list and to the list of its extension.\<close>

definition store :: "LogAnalyzer \<Rightarrow> LogEvent \<Rightarrow> LogAnalyzer" where
  "store st event =
     (let st = st\<lparr>events := events st @ [event]\<rparr> in
      if extension event = UNIPLAYSONG
        then st\<lparr>uniplaysong_events := uniplaysong_events st @ [event]\<rparr>
      else if extension event = PLAYNITESOUND
        then st\<lparr>playnitesound_events := playnitesound_events st @ [event]\<rparr>
      else st)"

definition parse_line :: "LogAnalyzer \<Rightarrow> string \<Rightarrow> py_error + LogAnalyzer" where
  "parse_line st raw =
     (case line_event raw of
        Inl e \<Rightarrow> Inl e
      | Inr None \<Rightarrow> Inr st
      | Inr (Some event) \<Rightarrow> Inr (store st event))"

text \<open>
  The loop over the lines of one file. An exception in the body ends the loop with the
  events stored so far (the outer \<^verbatim>\<open>except Exception\<close>), and the file then counts
  for 0 events.
\<close>

fun parse_lines :: "LogAnalyzer \<Rightarrow> string list \<Rightarrow> LogAnalyzer \<times> py_error option" where
  "parse_lines st [] = (st, None)"
| "parse_lines st (raw # rest) =
     (case parse_line st raw of
        Inl e \<Rightarrow> (st, Some e)
      | Inr st' \<Rightarrow> parse_lines st' rest)"

definition parse_single_log_file :: "LogAnalyzer \<Rightarrow> string list \<Rightarrow> LogAnalyzer \<times> nat" where
  "parse_single_log_file st lines =
     (let events_before = length (events st) in
      case parse_lines st lines of
        (st', None) \<Rightarrow> (st', length (events st') - events_before)
      | (st', Some e) \<Rightarrow> (st', 0))"

text \<open>
  \<^verbatim>\<open>parse_log_files\<close> on the lines of the files that exist, in order: the analyzer
  after the last file, and the total number of events.
\<close>

fun parse_log_files :: "LogAnalyzer \<Rightarrow> string list list \<Rightarrow> LogAnalyzer \<times> nat" where
  "parse_log_files st [] = (st, 0)"
| "parse_log_files st (lines # files) =
     (let (st', events_found) = parse_single_log_file st lines;
          (st'', total) = parse_log_files st' files
      in (st'', events_found + total))"

section \<open>Reports\<close>

text \<open>
  A report is modelled by its lines before formatting. A \<^verbatim>\<open>timedelta\<close> is an integer
  number of microseconds; where the source prints \<^verbatim>\<open>total_seconds() * 1000\<close> the line
  carries the microseconds. The source computes in floating point; on timestamps with
  whole milliseconds, the only ones \<open>recognize\<close> lets through, the comparisons and the
  truncation below agree with the exact values.
\<close>

datatype report_line =
    Text string
  | Count string nat
  | Baseline datetime
  | Window int
  | Entry int ExtensionType EventType string
  | At ExtensionType datetime
  | Message string
  | FirstMessage ExtensionType string
  | Metadata metadata_dict
  | TimeDifference int
  | Significant
  | Offset int string

text \<open>\<^verbatim>\<open>int(delta.total_seconds())\<close>: truncation towards zero of the seconds.\<close>

definition int_seconds :: "int \<Rightarrow> int" where
  "int_seconds us = (if 0 \<le> us then us div 1000000 else - ((- us) div 1000000))"

subsection \<open>\<^verbatim>\<open>create_timeline_report\<close>\<close>

text \<open>
  \<^verbatim>\<open>time_windows[window].append(event)\<close> on a \<^verbatim>\<open>defaultdict(list)\<close>, kept as an
  association list in insertion order of the keys.
\<close>

fun append_to_window ::
  "int \<Rightarrow> LogEvent \<Rightarrow> (int \<times> LogEvent list) list \<Rightarrow> (int \<times> LogEvent list) list" where
  "append_to_window w e [] = [(w, [e])]"
| "append_to_window w e ((k, es) # tw) =
     (if k = w then (k, es @ [e]) # tw else (k, es) # append_to_window w e tw)"

definition time_windows :: "datetime \<Rightarrow> LogEvent list \<Rightarrow> (int \<times> LogEvent list) list" where
  "time_windows baseline sorted_events =
     foldl (\<lambda>tw event. append_to_window (int_seconds (timestamp event - baseline)) event tw)
       [] sorted_events"

definition timeline_windows :: "LogAnalyzer \<Rightarrow> (int \<times> LogEvent list) list" where
  "timeline_windows st =
     (case sort_key timestamp (events st) of
        [] \<Rightarrow> []
      | first # rest \<Rightarrow> time_windows (timestamp first) (first # rest))"

definition create_timeline_report :: "LogAnalyzer \<Rightarrow> report_line list" where
  "create_timeline_report st =
     (if events st = [] then [Text ''No events found in log file.'']
      else let sorted_events = sort_key timestamp (events st) in
        case sorted_events of
          [] \<Rightarrow> [Text ''No events to analyze.'']
        | first # _ \<Rightarrow>
           (let baseline = timestamp first in
            [Text ''TIMELINE COMPARISON REPORT'', Baseline baseline,
             Count ''Total events'' (length sorted_events),
             Count ''UniPlaySong events'' (length (uniplaysong_events st)),
             Count ''PlayniteSound events'' (length (playnitesound_events st)),
             Text ''EVENT TIMELINE:'']
            @ concat (map (\<lambda>(window, events_in_window).
                Window window
                # map (\<lambda>event. Entry (timestamp event - baseline) (extension event)
                                  (event_type event) (take 60 (message event)))
                      (sort_key timestamp events_in_window))
                (sort_key fst (timeline_windows st)))))"

subsection \<open>\<^verbatim>\<open>create_comparison_report\<close>\<close>

definition of_type :: "EventType \<Rightarrow> LogEvent list \<Rightarrow> LogEvent list" where
  "of_type t es = filter (\<lambda>e. event_type e = t) es"

text \<open>One side of the first-selection comparison: time, message, metadata if not empty.\<close>

definition first_side :: "ExtensionType \<Rightarrow> LogEvent \<Rightarrow> report_line list" where
  "first_side ext e =
     [At ext (timestamp e), Message (message e)]
     @ (if metadata e \<noteq> [] then [Metadata (metadata e)] else [])"

definition first_selection_comparison :: "LogEvent list \<Rightarrow> LogEvent list \<Rightarrow> report_line list" where
  "first_selection_comparison ups_selections ps_selections =
     (case (ups_selections, ps_selections) of
        (ups_first # _, ps_first # _) \<Rightarrow>
          (let time_diff = timestamp ups_first - timestamp ps_first in
           [Text ''First OnGameSelected Comparison:'']
           @ first_side UNIPLAYSONG ups_first @ first_side PLAYNITESOUND ps_first
           @ [TimeDifference time_diff]
           @ (if \<bar>time_diff\<bar> > 100000 then [Significant] else []))
      | _ \<Rightarrow> [])"

definition first_video_comparison :: "LogEvent list \<Rightarrow> LogEvent list \<Rightarrow> report_line list" where
  "first_video_comparison ups_video ps_video =
     (case (ups_video, ps_video) of
        (u # _, p # _) \<Rightarrow>
          [Text ''First VideoIsPlaying Change:'', FirstMessage UNIPLAYSONG (message u),
           FirstMessage PLAYNITESOUND (message p)]
      | _ \<Rightarrow> [])"

text \<open>
  The listing of the first five \<^verbatim>\<open>_firstSelect\<close> events of one extension, each with its
  offset from \<^verbatim>\<open>self.events[0].timestamp\<close>; indexing an empty list raises.
\<close>

definition first_select_changes ::
  "LogAnalyzer \<Rightarrow> string \<Rightarrow> LogEvent list \<Rightarrow> py_error + report_line list" where
  "first_select_changes st title first_events =
     (if first_events = [] then Inr []
      else case events st of
        [] \<Rightarrow> Inl IndexError
      | e0 # _ \<Rightarrow>
          Inr (Text title
               # map (\<lambda>event. Offset (timestamp event - timestamp e0) (message event))
                     (take 5 first_events)))"

definition create_comparison_report :: "LogAnalyzer \<Rightarrow> py_error + report_line list" where
  "create_comparison_report st =
     (let ups_selections = of_type ON_GAME_SELECTED (uniplaysong_events st);
          ps_selections = of_type ON_GAME_SELECTED (playnitesound_events st);
          ups_video = of_type VIDEO_IS_PLAYING_CHANGED (uniplaysong_events st);
          ps_video = of_type VIDEO_IS_PLAYING_CHANGED (playnitesound_events st);
          ups_first = of_type FIRST_SELECT_STATE (uniplaysong_events st);
          ps_first = of_type FIRST_SELECT_STATE (playnitesound_events st);
          report =
            [Text ''SIDE-BY-SIDE COMPARISON'', Text ''OnGameSelected Events:'',
             Count ''UniPlaySong'' (length ups_selections),
             Count ''PlayniteSound'' (length ps_selections)]
            @ first_selection_comparison ups_selections ps_selections
            @ [Text ''VideoIsPlaying Changes:'',
               Count ''UniPlaySong'' (length ups_video),
               Count ''PlayniteSound'' (length ps_video)]
            @ first_video_comparison ups_video ps_video
            @ [Text ''_firstSelect State Changes:'',
               Count ''UniPlaySong'' (length ups_first),
               Count ''PlayniteSound'' (length ps_first)]
      in case first_select_changes st ''UniPlaySong _firstSelect changes:'' ups_first of
           Inl e \<Rightarrow> Inl e
         | Inr ups_lines \<Rightarrow>
            (case first_select_changes st ''PlayniteSound _firstSelect changes:'' ps_first of
               Inl e \<Rightarrow> Inl e
             | Inr ps_lines \<Rightarrow> Inr (report @ ups_lines @ ps_lines)))"

section \<open>The specification's reading, for comparison with the code\<close>

text \<open>
  The ordered keyword rules as the specification describes the classifier: each rule is
  the keyword alternatives of one category, the first rule with a keyword in the
  lower-cased message wins, and \<open>OTHER\<close> is the catch-all.
\<close>

definition classification_rules :: "(string list \<times> EventType) list" where
  "classification_rules =
     [([''ongameselected'', ''on game selected''], ON_GAME_SELECTED),
      ([''onapplicationstarted'', ''application started''], ON_APPLICATION_STARTED),
      ([''onsettingschanged'', ''on settings changed''], ON_SETTINGS_CHANGED),
      ([''videoisplaying'', ''video is playing''], VIDEO_IS_PLAYING_CHANGED),
      ([''shouldplaymusic'', ''should play music''], SHOULD_PLAY_MUSIC),
      ([''shouldplayaudio'', ''should play audio''], SHOULD_PLAY_AUDIO),
      ([''playmusicbasedonselected''], PLAY_MUSIC_BASED_ON_SELECTED),
      ([''pausemusic'', ''pause music''], PAUSE_MUSIC),
      ([''resumemusic'', ''resume music''], RESUME_MUSIC),
      ([''firstselect'', ''_firstselect'', ''first select''], FIRST_SELECT_STATE),
      ([''mediaelementsmonitor'', ''media elements monitor''], MEDIA_ELEMENTS_MONITOR),
      ([''onmainmodelchanged'', ''on main model changed''], ON_MAIN_MODEL_CHANGED)]"

definition rule_matches :: "string list \<times> EventType \<Rightarrow> string \<Rightarrow> bool" where
  "rule_matches rule msg = (\<exists>k \<in> set (fst rule). is_in k (lower msg))"

fun first_match_wins :: "(string list \<times> EventType) list \<Rightarrow> string \<Rightarrow> EventType" where
  "first_match_wins [] msg = OTHER"
| "first_match_wins (rule # rules) msg =
     (if rule_matches rule msg then snd rule else first_match_wins rules msg)"

text \<open>
  Source resolution as the specification words it: the source-hint decides when it names
  one of the two extensions, and only otherwise is the message searched for a bracketed
  or bare name.
\<close>

definition hint_first_resolution :: "string \<Rightarrow> string \<Rightarrow> ExtensionType" where
  "hint_first_resolution hint msg =
     (if is_in ''UniPlaySong'' hint then UNIPLAYSONG
      else if is_in ''PlayniteSound'' hint then PLAYNITESOUND
      else if is_in ''[UniPlaySong]'' msg \<or> is_in ''UniPlaySong'' msg then UNIPLAYSONG
      else if is_in ''[PlayniteSound]'' msg \<or> is_in ''PlayniteSound'' msg then PLAYNITESOUND
      else UNKNOWN)"

text \<open>The keys \<^verbatim>\<open>_extract_metadata\<close> assigns, in the order of its assignments.\<close>

definition known_fields :: "string list" where
  "known_fields = [''firstSelect'', ''skipMusic'', ''videoIsPlaying'', ''game'', ''activeView'',
                   ''mode'', ''shouldPlayMusic'', ''shouldPlayAudio'']"

text \<open>The partition of the stored events by extension.\<close>

definition partitioned :: "LogAnalyzer \<Rightarrow> bool" where
  "partitioned st =
     (uniplaysong_events st = filter (\<lambda>e. extension e = UNIPLAYSONG) (events st)
      \<and> playnitesound_events st = filter (\<lambda>e. extension e = PLAYNITESOUND) (events st)
      \<and> length (events st)
          = length (uniplaysong_events st) + length (playnitesound_events st))"

section \<open>What a match consumes and captures\<close>

text \<open>The characters some literal or class of a pattern admits.\<close>

fun admits :: "bool \<Rightarrow> rx \<Rightarrow> char \<Rightarrow> bool" where
  "admits ic (Lit l) x = (\<exists>k \<in> set l. atom_ok ic (Ch k) x)"
| "admits ic (Cls c) x = cls_ok ic c x"
| "admits ic (Rep c lo hi greedy) x = cls_ok ic c x"
| "admits ic (Seq a b) x = (admits ic a x \<or> admits ic b x)"
| "admits ic (Alt a b) x = (admits ic a x \<or> admits ic b x)"
| "admits ic (Grp n r) x = admits ic r x"

text \<open>The numbers of the groups of a pattern.\<close>

fun group_ids :: "rx \<Rightarrow> nat set" where
  "group_ids (Lit l) = {}"
| "group_ids (Cls c) = {}"
| "group_ids (Rep c lo hi greedy) = {}"
| "group_ids (Seq a b) = group_ids a \<union> group_ids b"
| "group_ids (Alt a b) = group_ids a \<union> group_ids b"
| "group_ids (Grp n r) = insert n (group_ids r)"

text \<open>A text that ends in a dot and three digits, as a captured timestamp does.\<close>

definition ends_ms :: "string \<Rightarrow> bool" where
  "ends_ms t = (\<exists>p a b c. t = p @ [CHR ''.'', a, b, c] \<and> is_digit a \<and> is_digit b \<and> is_digit c)"

text \<open>A pattern every match of which consumes a text of that form.\<close>

definition always_ends :: "bool \<Rightarrow> rx \<Rightarrow> bool" where
  "always_ends ic r =
     (\<forall>s g s' g'. (s', g') \<in> set (run ic r (s, g)) \<longrightarrow> (\<exists>t. s = t @ s' \<and> ends_ms t))"


section \<open>The event store\<close>

lemma line_event_known:
  "line_event raw = Inr (Some e) \<Longrightarrow> extension e = UNIPLAYSONG \<or> extension e = PLAYNITESOUND"
  by (auto simp: line_event_def Let_def determine_extension_def
           split: if_splits option.splits sum.splits)

lemma partitioned_store:
  "partitioned st \<Longrightarrow> extension e = UNIPLAYSONG \<or> extension e = PLAYNITESOUND
     \<Longrightarrow> partitioned (store st e)"
  by (auto simp: partitioned_def store_def Let_def)

lemma partitioned_parse_line:
  "partitioned st \<Longrightarrow> parse_line st raw = Inr st' \<Longrightarrow> partitioned st'"
  by (auto simp: parse_line_def split: sum.splits option.splits
           dest!: line_event_known intro: partitioned_store)

lemma partitioned_parse_lines:
  "partitioned st \<Longrightarrow> partitioned (fst (parse_lines st ls))"
proof (induction ls arbitrary: st)
  case Nil
  then show ?case by simp
next
  case (Cons raw rest)
  show ?case
  proof (cases "parse_line st raw")
    case (Inl e)
    with Cons.prems show ?thesis by simp
  next
    case (Inr st')
    with Cons.prems have "partitioned st'" by (auto dest: partitioned_parse_line)
    with Cons.IH Inr show ?thesis by simp
  qed
qed

lemma partitioned_parse_single_log_file:
  "partitioned st \<Longrightarrow> partitioned (fst (parse_single_log_file st ls))"
  using partitioned_parse_lines [of st ls]
  by (auto simp: parse_single_log_file_def Let_def split: prod.splits option.splits)

lemma fst_parse_log_files_Cons:
  "fst (parse_log_files st (ls # files))
     = fst (parse_log_files (fst (parse_single_log_file st ls)) files)"
  by (simp add: Let_def split_beta)

lemma partitioned_parse_log_files:
  "partitioned st \<Longrightarrow> partitioned (fst (parse_log_files st files))"
proof (induction files arbitrary: st)
  case Nil
  then show ?case by simp
next
  case (Cons ls files)
  from Cons.prems have "partitioned (fst (parse_single_log_file st ls))"
    by (rule partitioned_parse_single_log_file)
  from Cons.IH [OF this] show ?case
    by (simp only: fst_parse_log_files_Cons)
qed

text \<open>
  C10. After \<^verbatim>\<open>parse_log_files\<close> on any files, starting from a fresh analyzer, the
  list of extension A is exactly the stored events of extension A in the order they were
  stored, likewise for extension B, and the full list is as long as the two together.
\<close>

theorem store_partition_invariant:
  "uniplaysong_events (fst (parse_log_files init files))
     = filter (\<lambda>e. extension e = UNIPLAYSONG) (events (fst (parse_log_files init files)))
   \<and> playnitesound_events (fst (parse_log_files init files))
     = filter (\<lambda>e. extension e = PLAYNITESOUND) (events (fst (parse_log_files init files)))
   \<and> length (events (fst (parse_log_files init files)))
     = length (uniplaysong_events (fst (parse_log_files init files)))
       + length (playnitesound_events (fst (parse_log_files init files)))"
proof -
  have "partitioned init" by (simp add: partitioned_def init_def)
  then have "partitioned (fst (parse_log_files init files))"
    by (rule partitioned_parse_log_files)
  then show ?thesis by (simp add: partitioned_def)
qed

section \<open>The event classifier\<close>

lemma first_match_wins_nth:
  "i < length rules \<Longrightarrow> rule_matches (rules ! i) msg
     \<Longrightarrow> (\<And>h. h < i \<Longrightarrow> \<not> rule_matches (rules ! h) msg)
     \<Longrightarrow> first_match_wins rules msg = snd (rules ! i)"
proof (induction rules arbitrary: i)
  case Nil
  then show ?case by simp
next
  case (Cons rule rules)
  show ?case
  proof (cases i)
    case 0
    with Cons.prems(2) show ?thesis by simp
  next
    case (Suc k)
    from Cons.prems(3) [of 0] Suc have first: "\<not> rule_matches rule msg" by simp
    have later: "\<And>h. h < k \<Longrightarrow> \<not> rule_matches (rules ! h) msg"
      using Cons.prems(3) Suc by (metis Suc_less_eq nth_Cons_Suc)
    from Cons.prems(1,2) Suc have "k < length rules" "rule_matches (rules ! k) msg"
      by simp_all
    from Cons.IH [OF this later] first Suc show ?thesis by simp
  qed
qed

lemma first_match_wins_none:
  "(\<And>r. r \<in> set rules \<Longrightarrow> \<not> rule_matches r msg) \<Longrightarrow> first_match_wins rules msg = OTHER"
  by (induction rules) simp_all

lemma classify_event_rules: "classify_event msg = first_match_wins classification_rules msg"
  by (simp add: classify_event_def classification_rules_def rule_matches_def Let_def)

lemma EventType_UNIV: "(UNIV :: EventType set) = set event_types"
proof -
  have "t \<in> set event_types" for t
    by (cases t) (simp_all add: event_types_def)
  then show ?thesis by auto
qed

text \<open>
  C2 (as amended). The classifier is a first-match-wins scan over twelve keyword rules
  in a fixed order, thirteen categories with the catch-all: the category of a message is
  that of the earliest rule one of whose keywords occurs in the lower-cased message, and
  \<open>OTHER\<close> when no rule has one. So of two rules with a keyword in the message, the later
  one never decides.
\<close>

theorem classify_event_first_match:
  "classify_event msg = first_match_wins classification_rules msg
   \<and> (\<forall>i < length classification_rules.
        rule_matches (classification_rules ! i) msg
        \<and> (\<forall>h < i. \<not> rule_matches (classification_rules ! h) msg)
        \<longrightarrow> classify_event msg = snd (classification_rules ! i))
   \<and> ((\<forall>r \<in> set classification_rules. \<not> rule_matches r msg) \<longrightarrow> classify_event msg = OTHER)
   \<and> map snd classification_rules @ [OTHER] = event_types
   \<and> length classification_rules = 12 \<and> length event_types = 13"
proof (intro conjI allI impI)
  show "classify_event msg = first_match_wins classification_rules msg"
    by (rule classify_event_rules)
next
  fix i
  assume "i < length classification_rules"
    and "rule_matches (classification_rules ! i) msg
         \<and> (\<forall>h < i. \<not> rule_matches (classification_rules ! h) msg)"
  then show "classify_event msg = snd (classification_rules ! i)"
    by (simp only: classify_event_rules) (rule first_match_wins_nth, auto)
next
  assume "\<forall>r \<in> set classification_rules. \<not> rule_matches r msg"
  then show "classify_event msg = OTHER"
    by (simp only: classify_event_rules) (rule first_match_wins_none, auto)
next
  show "map snd classification_rules @ [OTHER] = event_types"
    by (simp add: classification_rules_def event_types_def)
next
  show "length classification_rules = 12"
    by (simp add: classification_rules_def)
next
  show "length event_types = 13"
    by (simp add: event_types_def)
qed

text \<open>
  A message with a keyword of the fifth rule and one of the eighth, and none of the first
  four: the fifth rule decides.
\<close>

theorem classify_event_first_match_witness:
  "rule_matches (classification_rules ! 4) ''ShouldPlayMusic after PauseMusic''
   \<and> rule_matches (classification_rules ! 7) ''ShouldPlayMusic after PauseMusic''
   \<and> \<not> rule_matches (classification_rules ! 0) ''ShouldPlayMusic after PauseMusic''
   \<and> \<not> rule_matches (classification_rules ! 1) ''ShouldPlayMusic after PauseMusic''
   \<and> \<not> rule_matches (classification_rules ! 2) ''ShouldPlayMusic after PauseMusic''
   \<and> \<not> rule_matches (classification_rules ! 3) ''ShouldPlayMusic after PauseMusic''
   \<and> classify_event ''ShouldPlayMusic after PauseMusic'' = SHOULD_PLAY_MUSIC"
proof -
  let ?m = "''ShouldPlayMusic after PauseMusic''"
  have m4: "rule_matches (classification_rules ! 4) ?m" by code_simp
  have m7: "rule_matches (classification_rules ! 7) ?m" by code_simp
  have n0: "\<not> rule_matches (classification_rules ! 0) ?m" by code_simp
  have n1: "\<not> rule_matches (classification_rules ! 1) ?m" by code_simp
  have n2: "\<not> rule_matches (classification_rules ! 2) ?m" by code_simp
  have n3: "\<not> rule_matches (classification_rules ! 3) ?m" by code_simp
  have before: "\<forall>h < 4. \<not> rule_matches (classification_rules ! h) ?m"
  proof (intro allI impI)
    fix h :: nat
    assume "h < 4"
    then have "h = 0 \<or> h = 1 \<or> h = 2 \<or> h = 3" by arith
    with n0 n1 n2 n3 show "\<not> rule_matches (classification_rules ! h) ?m" by auto
  qed
  have len: "(4::nat) < length classification_rules"
    by (simp add: classification_rules_def)
  have fifth: "snd (classification_rules ! 4) = SHOULD_PLAY_MUSIC"
    by (simp add: classification_rules_def)
  from classify_event_first_match [of ?m] len m4 before
  have "classify_event ?m = snd (classification_rules ! 4)" by blast
  with fifth m4 m7 n0 n1 n2 n3 show ?thesis by simp
qed

text \<open>
  The enumeration has thirteen members and the classifier twelve rules before the
  catch-all, not fourteen categories.
\<close>

theorem fourteen_categories_counterexample:
  "card (UNIV :: EventType set) = 13 \<and> length (map snd classification_rules @ [OTHER]) = 13"
proof -
  have "distinct event_types" by (simp add: event_types_def)
  then have "card (set event_types) = length event_types" by (rule distinct_card)
  then have "card (UNIV :: EventType set) = 13"
    by (simp add: EventType_UNIV) (simp add: event_types_def)
  moreover have "length (map snd classification_rules @ [OTHER]) = 13"
    by (simp add: classification_rules_def)
  ultimately show ?thesis by simp
qed

section \<open>The metadata extractor\<close>

lemma map_of_dict_set:
  "map_of (dict_set key v md) k = (if k = key then Some v else map_of md k)"
  by (induction md) auto

lemma map_fst_dict_set:
  "map fst (dict_set key v md)
     = (if key \<in> set (map fst md) then map fst md else map fst md @ [key])"
  by (induction key v md rule: dict_set.induct) (auto simp: image_iff)

lemma keys_dict_set: "fst ` set (dict_set key v md) = insert key (fst ` set md)"
  using map_fst_dict_set [of key v md, THEN arg_cong, of set]
  by (auto split: if_splits)

lemma distinct_dict_set:
  "distinct (map fst md) \<Longrightarrow> distinct (map fst (dict_set key v md))"
  by (simp add: map_fst_dict_set)

lemma map_of_set_field:
  "map_of (set_field r msg key val md) k =
     (if k = key
      then (case re_search True r msg of None \<Rightarrow> map_of md k | Some (_, g) \<Rightarrow> Some (val g))
      else map_of md k)"
  by (simp add: set_field_def map_of_dict_set split: option.splits)

lemma keys_set_field: "fst ` set (set_field r msg key val md) \<subseteq> insert key (fst ` set md)"
  by (auto simp: set_field_def keys_dict_set split: option.splits)

lemma distinct_set_field:
  "distinct (map fst md) \<Longrightarrow> distinct (map fst (set_field r msg key val md))"
  by (simp add: set_field_def distinct_dict_set split: option.splits)

lemma keys_set_field_in:
  "key \<in> K \<Longrightarrow> fst ` set md \<subseteq> K \<Longrightarrow> fst ` set (set_field r msg key val md) \<subseteq> K"
  using keys_set_field [of r msg key val md] by blast

lemma extract_metadata_keys:
  "fst ` set (extract_metadata msg et) \<subseteq> set known_fields"
  unfolding extract_metadata_def Let_def
  by (intro keys_set_field_in) (simp_all add: known_fields_def)

lemma extract_metadata_distinct: "distinct (map fst (extract_metadata msg et))"
  unfolding extract_metadata_def Let_def
  by (intro distinct_set_field) simp

text \<open>
  C6 (as amended). The keys of the dictionary are among eight fixed field names, each at
  most once. Each key is bound or not by its own pattern alone, to a \<^verbatim>\<open>bool\<close> or a
  \<^verbatim>\<open>str\<close> computed from the match; a key whose pattern is not found is absent from the
  dictionary.
\<close>

theorem extract_metadata_fields:
  "fst ` set (extract_metadata msg et) \<subseteq> set known_fields
   \<and> distinct (map fst (extract_metadata msg et))
   \<and> length known_fields = 8 \<and> distinct known_fields
   \<and> map_of (extract_metadata msg et) ''firstSelect''
       = (case re_search True first_select_rx msg of
            None \<Rightarrow> None | Some (_, g) \<Rightarrow> Some (B (lower (grp g 1) = ''true'')))
   \<and> map_of (extract_metadata msg et) ''skipMusic''
       = (case re_search True skip_rx msg of
            None \<Rightarrow> None | Some (_, g) \<Rightarrow> Some (B (lower (grp g 1) = ''true'')))
   \<and> map_of (extract_metadata msg et) ''videoIsPlaying''
       = (case re_search True video_rx msg of
            None \<Rightarrow> None | Some (_, g) \<Rightarrow> Some (S (grp g 1)))
   \<and> map_of (extract_metadata msg et) ''game''
       = (case re_search True game_rx msg of
            None \<Rightarrow> None | Some (_, g) \<Rightarrow> Some (S (strip (grp g 1))))
   \<and> map_of (extract_metadata msg et) ''activeView''
       = (case re_search True view_rx msg of
            None \<Rightarrow> None | Some (_, g) \<Rightarrow> Some (S (grp g 1)))
   \<and> map_of (extract_metadata msg et) ''mode''
       = (case re_search True mode_rx msg of
            None \<Rightarrow> None | Some (_, g) \<Rightarrow> Some (S (grp g 1)))
   \<and> map_of (extract_metadata msg et) ''shouldPlayMusic''
       = (case re_search True should_play_rx msg of
            None \<Rightarrow> None | Some (_, g) \<Rightarrow> Some (B (lower (grp g 2) = ''true'')))
   \<and> map_of (extract_metadata msg et) ''shouldPlayAudio''
       = (case re_search True should_audio_rx msg of
            None \<Rightarrow> None | Some (_, g) \<Rightarrow> Some (B (lower (grp g 2) = ''true'')))"
proof -
  have keys: "fst ` set (extract_metadata msg et) \<subseteq> set known_fields"
    by (rule extract_metadata_keys)
  have dist: "distinct (map fst (extract_metadata msg et))"
    by (rule extract_metadata_distinct)
  have known: "length known_fields = 8" "distinct known_fields"
    by (simp_all add: known_fields_def)
  have fields:
    "map_of (extract_metadata msg et) ''firstSelect''
       = (case re_search True first_select_rx msg of
            None \<Rightarrow> None | Some (_, g) \<Rightarrow> Some (B (lower (grp g 1) = ''true'')))"
    "map_of (extract_metadata msg et) ''skipMusic''
       = (case re_search True skip_rx msg of
            None \<Rightarrow> None | Some (_, g) \<Rightarrow> Some (B (lower (grp g 1) = ''true'')))"
    "map_of (extract_metadata msg et) ''videoIsPlaying''
       = (case re_search True video_rx msg of
            None \<Rightarrow> None | Some (_, g) \<Rightarrow> Some (S (grp g 1)))"
    "map_of (extract_metadata msg et) ''game''
       = (case re_search True game_rx msg of
            None \<Rightarrow> None | Some (_, g) \<Rightarrow> Some (S (strip (grp g 1))))"
    "map_of (extract_metadata msg et) ''activeView''
       = (case re_search True view_rx msg of
            None \<Rightarrow> None | Some (_, g) \<Rightarrow> Some (S (grp g 1)))"
    "map_of (extract_metadata msg et) ''mode''
       = (case re_search True mode_rx msg of
            None \<Rightarrow> None | Some (_, g) \<Rightarrow> Some (S (grp g 1)))"
    "map_of (extract_metadata msg et) ''shouldPlayMusic''
       = (case re_search True should_play_rx msg of
            None \<Rightarrow> None | Some (_, g) \<Rightarrow> Some (B (lower (grp g 2) = ''true'')))"
    "map_of (extract_metadata msg et) ''shouldPlayAudio''
       = (case re_search True should_audio_rx msg of
            None \<Rightarrow> None | Some (_, g) \<Rightarrow> Some (B (lower (grp g 2) = ''true'')))"
    by (simp_all add: extract_metadata_def Let_def map_of_set_field cong: option.case_cong)
  from keys dist known fields show ?thesis by (intro conjI)
qed

text \<open>
  A message with all eight fields, and the eight values read back through the theorem.
\<close>

theorem extract_metadata_fields_witness:
  "map fst (extract_metadata
      ''FirstSelect: true SkipMusic: false VideoIsPlaying: true Game: Foo, ActiveView: Grid Mode: Desktop ShouldPlayMusic: returned true ShouldPlayAudio: returned false''
      OTHER) = known_fields
   \<and> map_of (extract_metadata
      ''FirstSelect: true SkipMusic: false VideoIsPlaying: true Game: Foo, ActiveView: Grid Mode: Desktop ShouldPlayMusic: returned true ShouldPlayAudio: returned false''
      OTHER) ''game'' = Some (S ''Foo'')"
proof -
  let ?m = "''FirstSelect: true SkipMusic: false VideoIsPlaying: true Game: Foo, ActiveView: Grid Mode: Desktop ShouldPlayMusic: returned true ShouldPlayAudio: returned false''"
  have keys: "map fst (extract_metadata ?m OTHER) = known_fields" by code_simp
  have found: "(case re_search True game_rx ?m of
                  None \<Rightarrow> None | Some (_, g) \<Rightarrow> Some (S (strip (grp g 1)))) = Some (S ''Foo'')"
    by code_simp
  from extract_metadata_fields [of ?m OTHER] found
  have "map_of (extract_metadata ?m OTHER) ''game'' = Some (S ''Foo'')" by simp
  with keys show ?thesis by simp
qed

text \<open>One message produces eight fields, not seven.\<close>

theorem seven_fields_counterexample:
  "length (extract_metadata
      ''FirstSelect: true SkipMusic: false VideoIsPlaying: true Game: Foo, ActiveView: Grid Mode: Desktop ShouldPlayMusic: returned true ShouldPlayAudio: returned false''
      OTHER) = 8
   \<and> distinct (map fst (extract_metadata
      ''FirstSelect: true SkipMusic: false VideoIsPlaying: true Game: Foo, ActiveView: Grid Mode: Desktop ShouldPlayMusic: returned true ShouldPlayAudio: returned false''
      OTHER))"
  by code_simp

section \<open>Properties of matching\<close>

lemma lit_ok_split:
  "lit_ok ic l s \<Longrightarrow> \<exists>t. s = t @ drop (length l) s \<and> length t = length l
      \<and> (\<forall>x \<in> set t. \<exists>k \<in> set l. atom_ok ic (Ch k) x)"
proof (induction ic l s rule: lit_ok.induct)
  case (1 ic s)
  then show ?case by simp
next
  case (2 ic k ks)
  then show ?case by simp
next
  case (3 ic k ks c cs)
  then obtain t where t: "cs = t @ drop (length ks) cs" "length t = length ks"
    "\<forall>x \<in> set t. \<exists>k \<in> set ks. atom_ok ic (Ch k) x"
    by auto
  from 3 have "atom_ok ic (Ch k) c" by simp
  with t have "c # cs = (c # t) @ drop (length (k # ks)) (c # cs)
      \<and> length (c # t) = length (k # ks)
      \<and> (\<forall>x \<in> set (c # t). \<exists>k' \<in> set (k # ks). atom_ok ic (Ch k') x)"
    by auto
  then show ?case by blast
qed

lemma rep_counts_bound: "n \<in> set (rep_counts lo hi greedy m) \<Longrightarrow> lo \<le> n \<and> n \<le> m"
  by (auto simp: rep_counts_def Let_def split: option.splits if_splits)

lemma take_takeWhile:
  "n \<le> length (takeWhile P s) \<Longrightarrow> take n s = take n (takeWhile P s)"
proof (induction s arbitrary: n)
  case Nil
  then show ?case by simp
next
  case (Cons x xs)
  then show ?case by (cases n) (auto split: if_splits)
qed

lemma rep_split:
  assumes "n \<in> set (rep_counts lo hi greedy (length (takeWhile P s)))"
  shows "s = take n s @ drop n s \<and> length (take n s) = n \<and> lo \<le> n \<and> (\<forall>x \<in> set (take n s). P x)"
proof -
  from assms have n: "lo \<le> n" "n \<le> length (takeWhile P s)"
    by (auto dest: rep_counts_bound)
  then have "take n s = take n (takeWhile P s)" by (simp add: take_takeWhile)
  then have "set (take n s) \<subseteq> set (takeWhile P s)" by (metis set_take_subset)
  then have "\<forall>x \<in> set (take n s). P x" by (auto dest: set_takeWhileD)
  moreover have "length (takeWhile P s) \<le> length s" by (rule length_takeWhile_le)
  ultimately show ?thesis using n by simp
qed

lemma run_Seq:
  "(s', g') \<in> set (run ic (Seq a b) st)
     \<longleftrightarrow> (\<exists>s1 g1. (s1, g1) \<in> set (run ic a st) \<and> (s', g') \<in> set (run ic b (s1, g1)))"
  by auto

lemma run_Grp:
  "(s', g') \<in> set (run ic (Grp n r) (s, g))
     \<longleftrightarrow> (\<exists>g1. (s', g1) \<in> set (run ic r (s, g))
               \<and> g' = (n, take (length s - length s') s) # g1)"
  by auto

text \<open>What a match consumes is a prefix of the text, made of characters the pattern admits.\<close>

lemma run_consumes:
  "(s', g') \<in> set (run ic r (s, g)) \<Longrightarrow> \<exists>t. s = t @ s' \<and> (\<forall>x \<in> set t. admits ic r x)"
proof (induction r arbitrary: s g s' g')
  case (Lit l)
  then have ok: "lit_ok ic l s" and s': "s' = drop (length l) s"
    by (auto split: if_splits)
  from lit_ok_split [OF ok] obtain t where "s = t @ drop (length l) s"
    "\<forall>x \<in> set t. \<exists>k \<in> set l. atom_ok ic (Ch k) x" by blast
  with s' have "s = t @ s' \<and> (\<forall>x \<in> set t. admits ic (Lit l) x)"
    by (simp del: atom_ok.simps)
  then show ?case by blast
next
  case (Cls c)
  then show ?case by (cases s) (auto split: if_splits)
next
  case (Rep c lo hi greedy)
  then obtain n where n: "n \<in> set (rep_counts lo hi greedy (length (takeWhile (cls_ok ic c) s)))"
    and s': "s' = drop n s" by auto
  from rep_split [OF n] s' have "s = take n s @ s' \<and> (\<forall>x \<in> set (take n s). cls_ok ic c x)"
    by simp
  then show ?case by auto
next
  case (Seq a b)
  then obtain s1 g1 where a: "(s1, g1) \<in> set (run ic a (s, g))"
    and b: "(s', g') \<in> set (run ic b (s1, g1))"
    by (auto simp only: run_Seq)
  from Seq.IH(1) [OF a] obtain t1 where t1: "s = t1 @ s1" "\<forall>x \<in> set t1. admits ic a x" by blast
  from Seq.IH(2) [OF b] obtain t2 where t2: "s1 = t2 @ s'" "\<forall>x \<in> set t2. admits ic b x" by blast
  from t1 t2 have "s = (t1 @ t2) @ s' \<and> (\<forall>x \<in> set (t1 @ t2). admits ic (Seq a b) x)" by auto
  then show ?case by blast
next
  case (Alt a b)
  then have "(s', g') \<in> set (run ic a (s, g)) \<or> (s', g') \<in> set (run ic b (s, g))" by simp
  with Alt.IH show ?case by (metis admits.simps(5))
next
  case (Grp n r)
  then obtain g1 where "(s', g1) \<in> set (run ic r (s, g))" by (auto simp only: run_Grp)
  from Grp.IH [OF this] show ?case by simp
qed

text \<open>A match adds bindings for groups of the pattern in front of those already made.\<close>

lemma run_binds:
  "(s', g') \<in> set (run ic r (s, g)) \<Longrightarrow> \<exists>new. g' = new @ g \<and> fst ` set new \<subseteq> group_ids r"
proof (induction r arbitrary: s g s' g')
  case (Lit l)
  then show ?case by (auto split: if_splits)
next
  case (Cls c)
  then show ?case by (cases s) (auto split: if_splits)
next
  case (Rep c lo hi greedy)
  then show ?case by auto
next
  case (Seq a b)
  then obtain s1 g1 where a: "(s1, g1) \<in> set (run ic a (s, g))"
    and b: "(s', g') \<in> set (run ic b (s1, g1))"
    by (auto simp only: run_Seq)
  from Seq.IH(1) [OF a] obtain n1 where n1: "g1 = n1 @ g" "fst ` set n1 \<subseteq> group_ids a" by blast
  from Seq.IH(2) [OF b] obtain n2 where n2: "g' = n2 @ g1" "fst ` set n2 \<subseteq> group_ids b" by blast
  from n1 n2 have "g' = (n2 @ n1) @ g \<and> fst ` set (n2 @ n1) \<subseteq> group_ids (Seq a b)" by auto
  then show ?case by blast
next
  case (Alt a b)
  then have "(s', g') \<in> set (run ic a (s, g)) \<or> (s', g') \<in> set (run ic b (s, g))" by simp
  then show ?case
  proof
    assume "(s', g') \<in> set (run ic a (s, g))"
    from Alt.IH(1) [OF this] show ?thesis by auto
  next
    assume "(s', g') \<in> set (run ic b (s, g))"
    from Alt.IH(2) [OF this] show ?thesis by auto
  qed
next
  case (Grp n r)
  then obtain g1 where r: "(s', g1) \<in> set (run ic r (s, g))"
    and g': "g' = (n, take (length s - length s') s) # g1"
    by (auto simp only: run_Grp)
  from Grp.IH [OF r] obtain new where new: "g1 = new @ g" "fst ` set new \<subseteq> group_ids r" by blast
  with g' have "g' = ((n, take (length s - length s') s) # new) @ g
      \<and> fst ` set ((n, take (length s - length s') s) # new) \<subseteq> group_ids (Grp n r)"
    by auto
  then show ?case by blast
qed

lemma re_match_run: "re_match ic r s = Some m \<Longrightarrow> m \<in> set (run ic r (s, []))"
  by (auto simp: re_match_def split: list.splits)

text \<open>
  A pattern that begins with group \<open>n\<close> and does not use that number again: the group
  reads as the text its pattern consumed.
\<close>

lemma run_leading_group:
  assumes m: "(s', g') \<in> set (run ic (Seq (Grp n r) rest) (s, g))"
    and fresh: "n \<notin> group_ids rest"
  shows "\<exists>t s1 g1. (s1, g1) \<in> set (run ic r (s, g)) \<and> s = t @ s1 \<and> grp g' n = t"
proof -
  from m obtain s1 g1 where a: "(s1, g1) \<in> set (run ic (Grp n r) (s, g))"
    and b: "(s', g') \<in> set (run ic rest (s1, g1))"
    by (auto simp only: run_Seq)
  from a obtain g0 where r: "(s1, g0) \<in> set (run ic r (s, g))"
    and g1: "g1 = (n, take (length s - length s1) s) # g0"
    by (auto simp only: run_Grp)
  from run_consumes [OF r] obtain t where t: "s = t @ s1" by blast
  from run_binds [OF b] obtain new where new: "g' = new @ g1" "fst ` set new \<subseteq> group_ids rest"
    by blast
  from new(2) fresh have "n \<notin> fst ` set new" by auto
  then have "map_of new n = None" by (simp add: map_of_eq_None_iff)
  with new(1) g1 t have "grp g' n = t" by (simp add: grp_def group_def map_add_def)
  with r t show ?thesis by blast
qed

lemma run_SeqD:
  "(s', g') \<in> set (run ic (Seq a b) st)
     \<Longrightarrow> \<exists>s1 g1. (s1, g1) \<in> set (run ic a st) \<and> (s', g') \<in> set (run ic b (s1, g1))"
  by (simp only: run_Seq)

lemma always_ends_Seq: "always_ends ic b \<Longrightarrow> always_ends ic (Seq a b)"
proof (unfold always_ends_def, intro allI impI)
  fix s g s' g'
  assume b: "\<forall>s g s' g'. (s', g') \<in> set (run ic b (s, g)) \<longrightarrow> (\<exists>t. s = t @ s' \<and> ends_ms t)"
    and m: "(s', g') \<in> set (run ic (Seq a b) (s, g))"
  from m obtain s1 g1 where 1: "(s1, g1) \<in> set (run ic a (s, g))"
    and 2: "(s', g') \<in> set (run ic b (s1, g1))"
    by (auto simp only: run_Seq)
  from run_consumes [OF 1] obtain t1 where t1: "s = t1 @ s1" by blast
  from b 2 obtain t2 where t2: "s1 = t2 @ s'" "ends_ms t2" by blast
  from t2(2) obtain p x y z where "t2 = p @ [CHR ''.'', x, y, z]"
    "is_digit x" "is_digit y" "is_digit z"
    by (auto simp: ends_ms_def)
  then have "ends_ms (t1 @ t2)"
    unfolding ends_ms_def by (intro exI [of _ "t1 @ p"] exI [of _ x] exI [of _ y] exI [of _ z]) simp
  with t1 t2(1) show "\<exists>t. s = t @ s' \<and> ends_ms t" by (intro exI [of _ "t1 @ t2"]) simp
qed

lemma rep_counts_upper: "n \<in> set (rep_counts lo (Some h) greedy m) \<Longrightarrow> n \<le> h"
  by (auto simp: rep_counts_def Let_def split: if_splits)

lemma length_three: "length t = Suc (Suc (Suc 0)) \<Longrightarrow> \<exists>x y z. t = [x, y, z]"
  by (auto simp: length_Suc_conv)

lemma run_dot: "(s1, g1) \<in> set (run False (Lit [CHR ''.'']) (s, g)) \<Longrightarrow> s = CHR ''.'' # s1"
  by (cases s) (simp_all split: if_split_asm)

lemma always_ends_dot_digits: "always_ends False (Seq (Lit ''.'') (times 3 (Is Digit)))"
proof (unfold always_ends_def, intro allI impI)
  fix s g s' g'
  assume m: "(s', g') \<in> set (run False (Seq (Lit ''.'') (times 3 (Is Digit))) (s, g))"
  from run_SeqD [OF m] obtain s1 g1 where 1: "(s1, g1) \<in> set (run False (Lit ''.'') (s, g))"
    and 2: "(s', g') \<in> set (run False (times 3 (Is Digit)) (s1, g1))"
    by blast
  from 1 have s: "s = CHR ''.'' # s1" by (rule run_dot)
  from 2 obtain n where n: "n \<in> set (rep_counts 3 (Some 3) True
      (length (takeWhile (cls_ok False (Is Digit)) s1)))" and s': "s' = drop n s1"
    by (simp only: run.simps set_map) blast
  from rep_counts_bound [OF n] rep_counts_upper [OF n] have n3: "n = 3" by simp
  from rep_split [OF n] n3 have d: "s1 = take 3 s1 @ drop 3 s1" "length (take 3 s1) = 3"
    "\<forall>x \<in> set (take 3 s1). cls_ok False (Is Digit) x"
    by blast+
  from d(2) have "length (take 3 s1) = Suc (Suc (Suc 0))" by (simp only: numeral_3_eq_3)
  from length_three [OF this] obtain x y z where xyz: "take 3 s1 = [x, y, z]" by blast
  from d(3) have "is_digit x" "is_digit y" "is_digit z" by (simp_all only: xyz) simp_all
  then have e: "ends_ms ([] @ [CHR ''.'', x, y, z])"
    unfolding ends_ms_def by blast
  from d(1) have "s1 = [x, y, z] @ drop 3 s1" by (simp only: xyz)
  with s s' n3 have "s = [CHR ''.'', x, y, z] @ s'" by simp
  with e show "\<exists>t. s = t @ s' \<and> ends_ms t" by (intro exI [of _ "[CHR ''.'', x, y, z]"]) simp
qed

lemma always_ends_ts_rx: "always_ends False ts_rx"
  unfolding ts_rx_def seqs.simps
  by (intro always_ends_Seq always_ends_dot_digits)

text \<open>The first group of each line pattern is the text \<open>ts_rx\<close> consumed.\<close>

lemma leading_timestamp:
  assumes "(s', g') \<in> set (run False (Seq (Grp 1 ts_rx) rest) (s, g))" "1 \<notin> group_ids rest"
  shows "ends_ms (grp g' 1)"
proof -
  from run_leading_group [OF assms] obtain t s1 g1
    where r: "(s1, g1) \<in> set (run False ts_rx (s, g))" and t: "s = t @ s1" "grp g' 1 = t"
    by blast
  from always_ends_ts_rx r obtain t' where t': "s = t' @ s1" "ends_ms t'"
    unfolding always_ends_def by blast
  from t(1) t'(1) have "t = t'" by simp
  with t(2) t'(2) show ?thesis by simp
qed

lemma log_pattern_timestamp:
  "re_match False log_pattern line = Some (rest, g) \<Longrightarrow> ends_ms (grp g 1)"
  by (drule re_match_run, unfold log_pattern_def seqs.simps, erule leading_timestamp) simp

lemma simple_pattern_timestamp:
  "re_match False simple_pattern line = Some (rest, g) \<Longrightarrow> ends_ms (grp g 1)"
  by (drule re_match_run, unfold simple_pattern_def seqs.simps, erule leading_timestamp) simp

lemma filelogger_pattern_timestamp:
  assumes "re_match False filelogger_pattern line = Some (rest, g)"
  shows "ends_ms (grp g 1)"
proof -
  from re_match_run [OF assms]
  have "(rest, g) \<in> set (run False filelogger_pattern (line, []))" .
  then obtain s1 g1 where "(rest, g) \<in> set (run False (Seq (Grp 1 ts_rx)
      (seqs [Lit '']'', plus (Is Spacec), Lit ''['', Grp 2 (plus (Is Wordc)), Lit '']'',
             plus (Is Spacec), Grp 3 (star Dot)])) (s1, g1))"
    unfolding filelogger_pattern_def seqs.simps by (blast dest: run_SeqD)
  then show ?thesis by (rule leading_timestamp) simp
qed

lemma recognize_timestamp:
  "recognize line = Some (ts, lvl, hint, msg) \<Longrightarrow> ends_ms ts"
  by (auto simp: recognize_def split: option.splits
           dest: log_pattern_timestamp simple_pattern_timestamp filelogger_pattern_timestamp)

text \<open>The whole-second format admits no dot, so it cannot match a text that has one.\<close>

lemma mk_datetime_errors: "mk_datetime y m d hh mm ss us = Inl e \<Longrightarrow> e = ValueError"
  unfolding mk_datetime_def by (simp split: if_split_asm)

lemma strptime_errors: "strptime r s = Inl e \<Longrightarrow> e = ValueError"
  unfolding strptime_def Let_def
  by (auto split: option.split_asm prod.split_asm if_split_asm dest: mk_datetime_errors)

lemma whole_second_no_dot: "\<not> admits True whole_second_rx CHR ''.''"
  by code_simp

lemma strptime_whole_second_dot:
  assumes "CHR ''.'' \<in> set s"
  shows "strptime whole_second_rx s = Inl ValueError"
proof (cases "re_match True whole_second_rx s")
  case None
  then show ?thesis by (simp add: strptime_def)
next
  case (Some m)
  obtain rest found where m: "m = (rest, found)" by (cases m)
  from re_match_run [OF Some [unfolded m]] run_consumes
  obtain t where t: "s = t @ rest" "\<forall>x \<in> set t. admits True whole_second_rx x" by blast
  from t(2) whole_second_no_dot have "CHR ''.'' \<notin> set t" by blast
  with assms t(1) have "rest \<noteq> []" by auto
  with Some m show ?thesis by (simp add: strptime_def)
qed

lemma ends_ms_dot: "ends_ms t \<Longrightarrow> CHR ''.'' \<in> set t"
  by (auto simp: ends_ms_def)

lemma parse_timestamp_fractional:
  "ends_ms ts \<Longrightarrow> parse_timestamp ts =
     (case strptime fractional_rx ts of Inr t \<Rightarrow> Inr (Some t) | Inl e \<Rightarrow> Inr None)"
  by (auto simp: parse_timestamp_def strptime_whole_second_dot ends_ms_dot
           split: sum.splits py_error.splits dest: strptime_errors)

lemma parse_timestamp_no_error: "parse_timestamp ts \<noteq> Inl e"
  by (auto simp: parse_timestamp_def split: sum.splits py_error.splits dest: strptime_errors)

lemma line_event_no_error: "line_event raw \<noteq> Inl e"
  using parse_timestamp_no_error
  by (auto simp: line_event_def Let_def split: option.splits sum.splits if_splits)

lemma parse_line_no_error: "parse_line st raw \<noteq> Inl e"
  using line_event_no_error
  by (auto simp: parse_line_def split: option.splits sum.splits)

lemma parse_lines_no_error: "snd (parse_lines st ls) = None"
proof (induction ls arbitrary: st)
  case Nil
  show ?case by simp
next
  case (Cons raw rest)
  then show ?case using parse_line_no_error [of st raw]
    by (cases "parse_line st raw") auto
qed

section \<open>The line parser and the source classifier\<close>

lemma recognize_empty: "recognize [] = None"
  by code_simp

lemma line_event_Some:
  assumes "line_event raw = Inr (Some e)"
  shows "\<exists>ts lvl hint msg t. recognize (strip raw) = Some (ts, lvl, hint, msg)
          \<and> parse_timestamp ts = Inr (Some t)
          \<and> determine_extension hint msg \<noteq> UNKNOWN
          \<and> e = \<lparr>timestamp = t, extension = determine_extension hint msg,
                   event_type = classify_event msg, message = msg, raw_line = strip raw,
                   metadata = extract_metadata msg (classify_event msg)\<rparr>"
  using assms
  by (auto simp: line_event_def Let_def split: if_split_asm option.split_asm sum.split_asm)

lemma line_event_unrecognized: "recognize (strip raw) = None \<Longrightarrow> line_event raw = Inr None"
  by (simp add: line_event_def Let_def)

lemma line_event_bad_timestamp:
  "recognize (strip raw) = Some (ts, lvl, hint, msg) \<Longrightarrow> parse_timestamp ts = Inr None
     \<Longrightarrow> line_event raw = Inr None"
  by (simp add: line_event_def Let_def)

lemma line_event_unknown:
  assumes "recognize (strip raw) = Some (ts, lvl, hint, msg)"
    and "determine_extension hint msg = UNKNOWN"
  shows "line_event raw = Inr None"
proof (cases "parse_timestamp ts")
  case (Inl e)
  then show ?thesis by (simp add: parse_timestamp_no_error)
next
  case (Inr t)
  with assms show ?thesis
    by (cases t) (simp_all add: line_event_def Let_def)
qed

lemma line_event_stored:
  assumes r: "recognize (strip raw) = Some (ts, lvl, hint, msg)"
    and t: "parse_timestamp ts = Inr (Some t)"
    and k: "determine_extension hint msg \<noteq> UNKNOWN"
  shows "line_event raw =
           Inr (Some \<lparr>timestamp = t, extension = determine_extension hint msg,
                      event_type = classify_event msg, message = msg, raw_line = strip raw,
                      metadata = extract_metadata msg (classify_event msg)\<rparr>)"
proof -
  from r have "strip raw \<noteq> []" by (auto simp: recognize_empty)
  with r t k show ?thesis by (simp add: line_event_def Let_def)
qed

lemma recognize_inferred:
  "re_match False log_pattern line = None \<Longrightarrow> recognize line = Some (ts, lvl, hint, msg)
     \<Longrightarrow> hint = infer_extension_name msg"
  by (auto simp: recognize_def split: option.split_asm)

text \<open>
  C8. In every recognized line the captured timestamp ends in a dot and three digits, so
  the parse without fractional seconds fails on it: the timestamp of a stored event is
  the result of the fractional-seconds parse, and a line on which that parse fails is
  skipped.
\<close>

theorem fallback_never_succeeds:
  "(recognize line = Some (ts, lvl, hint, msg) \<longrightarrow>
      (\<exists>p a b c. ts = p @ [CHR ''.'', a, b, c] \<and> is_digit a \<and> is_digit b \<and> is_digit c)
      \<and> strptime whole_second_rx ts = Inl ValueError
      \<and> parse_timestamp ts =
          (case strptime fractional_rx ts of Inr t \<Rightarrow> Inr (Some t) | Inl e \<Rightarrow> Inr None))
   \<and> (line_event raw = Inr (Some ev) \<longrightarrow>
        (\<exists>ts' lvl' hint' msg'. recognize (strip raw) = Some (ts', lvl', hint', msg')
           \<and> strptime fractional_rx ts' = Inr (timestamp ev)))
   \<and> (recognize (strip raw) = Some (ts2, lvl2, hint2, msg2)
        \<and> strptime fractional_rx ts2 = Inl err \<longrightarrow> line_event raw = Inr None)"
proof (intro conjI impI)
  assume r: "recognize line = Some (ts, lvl, hint, msg)"
  then have e: "ends_ms ts" by (rule recognize_timestamp)
  then show "\<exists>p a b c. ts = p @ [CHR ''.'', a, b, c] \<and> is_digit a \<and> is_digit b \<and> is_digit c"
    by (simp only: ends_ms_def)
  from e show "strptime whole_second_rx ts = Inl ValueError"
    by (intro strptime_whole_second_dot ends_ms_dot)
  from e show "parse_timestamp ts =
      (case strptime fractional_rx ts of Inr t \<Rightarrow> Inr (Some t) | Inl e \<Rightarrow> Inr None)"
    by (rule parse_timestamp_fractional)
next
  assume "line_event raw = Inr (Some ev)"
  from line_event_Some [OF this] obtain ts' lvl' hint' msg' t
    where r: "recognize (strip raw) = Some (ts', lvl', hint', msg')"
      and p: "parse_timestamp ts' = Inr (Some t)" and t: "timestamp ev = t"
    by auto
  from parse_timestamp_fractional [OF recognize_timestamp [OF r]] p t
  have "strptime fractional_rx ts' = Inr (timestamp ev)"
    by (simp split: sum.split_asm)
  with r show "\<exists>ts' lvl' hint' msg'. recognize (strip raw) = Some (ts', lvl', hint', msg')
      \<and> strptime fractional_rx ts' = Inr (timestamp ev)"
    by blast
next
  assume a: "recognize (strip raw) = Some (ts2, lvl2, hint2, msg2)
      \<and> strptime fractional_rx ts2 = Inl err"
  then have r: "recognize (strip raw) = Some (ts2, lvl2, hint2, msg2)"
    and f: "strptime fractional_rx ts2 = Inl err" by simp_all
  from parse_timestamp_fractional [OF recognize_timestamp [OF r]] f
  have "parse_timestamp ts2 = Inr None" by simp
  with r show "line_event raw = Inr None" by (rule line_event_bad_timestamp)
qed

text \<open>
  Two tabular lines, the second with month 13: the first is stored with the time of its
  fractional-seconds parse, the second is skipped.
\<close>

theorem fallback_never_succeeds_witness:
  "recognize ''2024-01-01 10:00:00.050 | INFO | PlayniteSound | OnGameSelected''
     = Some (''2024-01-01 10:00:00.050'', ''INFO'', ''PlayniteSound'', ''OnGameSelected'')
   \<and> strptime whole_second_rx ''2024-01-01 10:00:00.050'' = Inl ValueError
   \<and> parse_timestamp ''2024-01-01 10:00:00.050'' = Inr (Some 63839700000050000)
   \<and> recognize (strip ''2024-13-01 10:00:00.050 | INFO | PlayniteSound | OnGameSelected'')
     = Some (''2024-13-01 10:00:00.050'', ''INFO'', ''PlayniteSound'', ''OnGameSelected'')
   \<and> strptime fractional_rx ''2024-13-01 10:00:00.050'' = Inl ValueError
   \<and> line_event ''2024-13-01 10:00:00.050 | INFO | PlayniteSound | OnGameSelected'' = Inr None"
proof -
  let ?good = "''2024-01-01 10:00:00.050 | INFO | PlayniteSound | OnGameSelected''"
  let ?bad = "''2024-13-01 10:00:00.050 | INFO | PlayniteSound | OnGameSelected''"
  have r1: "recognize ?good
      = Some (''2024-01-01 10:00:00.050'', ''INFO'', ''PlayniteSound'', ''OnGameSelected'')"
    by code_simp
  have f1: "strptime fractional_rx ''2024-01-01 10:00:00.050'' = Inr 63839700000050000"
    by code_simp
  have r2: "recognize (strip ?bad)
      = Some (''2024-13-01 10:00:00.050'', ''INFO'', ''PlayniteSound'', ''OnGameSelected'')"
    by code_simp
  have f2: "strptime fractional_rx ''2024-13-01 10:00:00.050'' = Inl ValueError"
    by code_simp
  note inst = fallback_never_succeeds [of ?good "''2024-01-01 10:00:00.050''" "''INFO''"
      "''PlayniteSound''" "''OnGameSelected''" ?bad _ "''2024-13-01 10:00:00.050''" "''INFO''"
      "''PlayniteSound''" "''OnGameSelected''" ValueError]
  from inst r1 have w: "strptime whole_second_rx ''2024-01-01 10:00:00.050'' = Inl ValueError"
    and p: "parse_timestamp ''2024-01-01 10:00:00.050'' =
      (case strptime fractional_rx ''2024-01-01 10:00:00.050'' of
         Inr t \<Rightarrow> Inr (Some t) | Inl e \<Rightarrow> Inr None)"
    by blast+
  from inst r2 f2 have s: "line_event ?bad = Inr None" by blast
  from p f1 have "parse_timestamp ''2024-01-01 10:00:00.050'' = Inr (Some 63839700000050000)"
    by simp
  with r1 w r2 f2 s show ?thesis by (intro conjI)
qed

text \<open>
  C4. No line makes the loop body raise: every line gives an analyzer back, and a whole
  file is read to its end. A line that no recognizer accepts, or whose timestamp fails
  both parses, leaves the analyzer as it was, and the loop goes on with the next line.
\<close>

theorem malformed_lines_skipped:
  "(\<exists>st'. parse_line st raw = Inr st')
   \<and> snd (parse_lines st ls) = None
   \<and> (recognize (strip raw) = None \<longrightarrow> line_event raw = Inr None \<and> parse_line st raw = Inr st)
   \<and> (recognize (strip raw) = Some (ts, lvl, hint, msg)
        \<and> strptime fractional_rx ts = Inl e1 \<and> strptime whole_second_rx ts = Inl e2
        \<longrightarrow> line_event raw = Inr None \<and> parse_line st raw = Inr st)
   \<and> (line_event raw = Inr None \<longrightarrow> parse_lines st (raw # rest) = parse_lines st rest)"
proof (intro conjI impI)
  show "\<exists>st'. parse_line st raw = Inr st'"
    using parse_line_no_error [of st raw] by (cases "parse_line st raw") auto
next
  show "snd (parse_lines st ls) = None" by (rule parse_lines_no_error)
next
  assume "recognize (strip raw) = None"
  then show "line_event raw = Inr None" by (rule line_event_unrecognized)
  then show "parse_line st raw = Inr st" by (simp add: parse_line_def)
next
  assume a: "recognize (strip raw) = Some (ts, lvl, hint, msg)
      \<and> strptime fractional_rx ts = Inl e1 \<and> strptime whole_second_rx ts = Inl e2"
  then have "e1 = ValueError" "e2 = ValueError" by (auto dest: strptime_errors)
  with a have "parse_timestamp ts = Inr None" by (simp add: parse_timestamp_def)
  with a show "line_event raw = Inr None" by (blast intro: line_event_bad_timestamp)
  then show "parse_line st raw = Inr st" by (simp add: parse_line_def)
next
  assume "line_event raw = Inr None"
  then show "parse_lines st (raw # rest) = parse_lines st rest" by (simp add: parse_line_def)
qed

text \<open>
  A line in no format and a line whose timestamp has month 13 and day 45, each before a
  well-formed line: the analyzer after the three lines is the one after the good line alone.
\<close>

theorem malformed_lines_skipped_witness:
  "recognize (strip ''garbage text'') = None
   \<and> parse_line init ''garbage text'' = Inr init
   \<and> recognize (strip ''2024-13-45 10:00:00.000 | INFO | UniPlaySong | x'')
       = Some (''2024-13-45 10:00:00.000'', ''INFO'', ''UniPlaySong'', ''x'')
   \<and> strptime fractional_rx ''2024-13-45 10:00:00.000'' = Inl ValueError
   \<and> strptime whole_second_rx ''2024-13-45 10:00:00.000'' = Inl ValueError
   \<and> parse_line init ''2024-13-45 10:00:00.000 | INFO | UniPlaySong | x'' = Inr init
   \<and> parse_lines init [''garbage text'', ''2024-13-45 10:00:00.000 | INFO | UniPlaySong | x'',
                         ''2024-01-01 10:00:00.000 | INFO | UniPlaySong | x'']
       = parse_lines init [''2024-01-01 10:00:00.000 | INFO | UniPlaySong | x'']"
proof -
  let ?g = "''garbage text''"
  let ?b = "''2024-13-45 10:00:00.000 | INFO | UniPlaySong | x''"
  let ?ok = "''2024-01-01 10:00:00.000 | INFO | UniPlaySong | x''"
  have g: "recognize (strip ?g) = None" by code_simp
  have b: "recognize (strip ?b) = Some (''2024-13-45 10:00:00.000'', ''INFO'', ''UniPlaySong'', ''x'')"
    by code_simp
  have f: "strptime fractional_rx ''2024-13-45 10:00:00.000'' = Inl ValueError" by code_simp
  have w: "strptime whole_second_rx ''2024-13-45 10:00:00.000'' = Inl ValueError" by code_simp
  from malformed_lines_skipped [of init ?g] g
  have g1: "line_event ?g = Inr None" and g2: "parse_line init ?g = Inr init" by blast+
  from malformed_lines_skipped [of init ?b _ "''2024-13-45 10:00:00.000''" "''INFO''"
      "''UniPlaySong''" "''x''" ValueError ValueError] b f w
  have b1: "line_event ?b = Inr None" and b2: "parse_line init ?b = Inr init" by blast+
  from malformed_lines_skipped [of init ?g _ _ _ _ _ _ _ "[?b, ?ok]"] g1
  have s1: "parse_lines init [?g, ?b, ?ok] = parse_lines init [?b, ?ok]" by blast
  from malformed_lines_skipped [of init ?b _ _ _ _ _ _ _ "[?ok]"] b1
  have s2: "parse_lines init [?b, ?ok] = parse_lines init [?ok]" by blast
  from g g2 b f w b2 s1 s2 show ?thesis by simp
qed

text \<open>
  C3 (as amended). A recognized line resolves to one of the three sources, extension A
  when the source-hint contains its name or the message its bracketed name, otherwise
  extension B on the same two tests, otherwise unknown; the bracketed name of A in the
  message is looked for whatever the hint says. An event is stored with the source so
  resolved, and a line resolving to unknown leaves the analyzer, hence every count, as
  it was.
\<close>

theorem source_resolution:
  "(line_event raw = Inr (Some ev) \<longrightarrow>
      (\<exists>ts lvl hint msg. recognize (strip raw) = Some (ts, lvl, hint, msg)
         \<and> extension ev = determine_extension hint msg \<and> extension ev \<noteq> UNKNOWN))
   \<and> (recognize (strip raw) = Some (ts', lvl', hint', msg')
        \<and> determine_extension hint' msg' = UNKNOWN
        \<longrightarrow> line_event raw = Inr None \<and> parse_line st raw = Inr st)
   \<and> (determine_extension h m = UNIPLAYSONG)
       = (is_in ''UniPlaySong'' h \<or> is_in ''[UniPlaySong]'' m)
   \<and> (determine_extension h m = PLAYNITESOUND)
       = (\<not> (is_in ''UniPlaySong'' h \<or> is_in ''[UniPlaySong]'' m)
          \<and> (is_in ''PlayniteSound'' h \<or> is_in ''[PlayniteSound]'' m))
   \<and> (determine_extension h m = UNKNOWN)
       = (\<not> (is_in ''UniPlaySong'' h \<or> is_in ''[UniPlaySong]'' m)
          \<and> \<not> (is_in ''PlayniteSound'' h \<or> is_in ''[PlayniteSound]'' m))"
proof (intro conjI impI)
  assume "line_event raw = Inr (Some ev)"
  from line_event_Some [OF this]
  show "\<exists>ts lvl hint msg. recognize (strip raw) = Some (ts, lvl, hint, msg)
      \<and> extension ev = determine_extension hint msg \<and> extension ev \<noteq> UNKNOWN"
    by auto
next
  assume a: "recognize (strip raw) = Some (ts', lvl', hint', msg')
      \<and> determine_extension hint' msg' = UNKNOWN"
  then show "line_event raw = Inr None" by (blast intro: line_event_unknown)
  then show "parse_line st raw = Inr st" by (simp add: parse_line_def)
qed (simp_all add: determine_extension_def)

text \<open>
  A line whose source field names neither extension is dropped; a line whose source field
  names extension B and whose message carries the bracketed name of A is stored for A.
\<close>

theorem source_resolution_witness:
  "recognize (strip ''2024-01-01 10:00:00.000 | INFO | Core | hello'')
       = Some (''2024-01-01 10:00:00.000'', ''INFO'', ''Core'', ''hello'')
   \<and> determine_extension ''Core'' ''hello'' = UNKNOWN
   \<and> parse_line init ''2024-01-01 10:00:00.000 | INFO | Core | hello'' = Inr init
   \<and> determine_extension ''PlayniteSound'' ''[UniPlaySong] hello'' = UNIPLAYSONG"
proof -
  let ?u = "''2024-01-01 10:00:00.000 | INFO | Core | hello''"
  have r: "recognize (strip ?u) = Some (''2024-01-01 10:00:00.000'', ''INFO'', ''Core'', ''hello'')"
    by code_simp
  have k: "determine_extension ''Core'' ''hello'' = UNKNOWN" by code_simp
  have a: "is_in ''[UniPlaySong]'' ''[UniPlaySong] hello''" by code_simp
  from source_resolution [of ?u _ "''2024-01-01 10:00:00.000''" "''INFO''" "''Core''" "''hello''"
      init "''PlayniteSound''" "''[UniPlaySong] hello''"] r k a
  have "parse_line init ?u = Inr init"
    and "determine_extension ''PlayniteSound'' ''[UniPlaySong] hello'' = UNIPLAYSONG"
    by blast+
  with r k show ?thesis by simp
qed

text \<open>
  The source field names extension B, which the specification's resolution takes as
  decisive, yet the event is stored for extension A.
\<close>

theorem hint_first_counterexample:
  "recognize (strip ''2024-01-01 10:00:00.000 | INFO | PlayniteSound | [UniPlaySong] hello'')
     = Some (''2024-01-01 10:00:00.000'', ''INFO'', ''PlayniteSound'', ''[UniPlaySong] hello'')
   \<and> hint_first_resolution ''PlayniteSound'' ''[UniPlaySong] hello'' = PLAYNITESOUND
   \<and> map_sum id (map_option extension) (line_event
         ''2024-01-01 10:00:00.000 | INFO | PlayniteSound | [UniPlaySong] hello'')
     = Inr (Some UNIPLAYSONG)"
  by code_simp

lemma starts_with_iff: "starts_with k s = (\<exists>q. s = k @ q)"
  by (induction k s rule: starts_with.induct) auto

lemma is_in_iff: "is_in k s = (\<exists>p q. s = p @ k @ q)"
proof (induction s)
  case Nil
  show ?case by auto
next
  case (Cons c cs)
  have "(\<exists>p q. c # cs = p @ k @ q) = ((\<exists>q. c # cs = k @ q) \<or> (\<exists>p q. cs = p @ k @ q))"
  proof
    assume "\<exists>p q. c # cs = p @ k @ q"
    then obtain p q where pq: "c # cs = p @ k @ q" by blast
    show "(\<exists>q. c # cs = k @ q) \<or> (\<exists>p q. cs = p @ k @ q)"
    proof (cases p)
      case Nil
      with pq show ?thesis by auto
    next
      case (Cons x p')
      with pq have "cs = p' @ k @ q" by simp
      then show ?thesis by blast
    qed
  next
    assume "(\<exists>q. c # cs = k @ q) \<or> (\<exists>p q. cs = p @ k @ q)"
    then show "\<exists>p q. c # cs = p @ k @ q"
    proof
      assume "\<exists>q. c # cs = k @ q"
      then obtain q where "c # cs = [] @ k @ q" by auto
      then show ?thesis by blast
    next
      assume "\<exists>p q. cs = p @ k @ q"
      then obtain p q where "c # cs = (c # p) @ k @ q" by auto
      then show ?thesis by blast
    qed
  qed
  with Cons show ?case by (simp add: starts_with_iff)
qed

lemma is_in_bracketed: "is_in (CHR ''['' # k @ '']'') s \<Longrightarrow> is_in k s"
proof -
  assume "is_in (CHR ''['' # k @ '']'') s"
  then obtain p q where "s = p @ (CHR ''['' # k @ '']'') @ q" by (auto simp: is_in_iff)
  then have "s = (p @ ''['') @ k @ ('']'' @ q)" by simp
  then show ?thesis unfolding is_in_iff by blast
qed

text \<open>
  In the bracketed and the bare format the source-hint is inferred from the message, so
  there the tests of the final resolution come down to the bare names in the message.
\<close>

lemma inferred_markers:
  assumes "hint = infer_extension_name msg"
  shows "(is_in ''UniPlaySong'' hint \<or> is_in ''[UniPlaySong]'' msg) = is_in ''UniPlaySong'' msg"
    and "\<not> is_in ''UniPlaySong'' msg \<Longrightarrow>
         (is_in ''PlayniteSound'' hint \<or> is_in ''[PlayniteSound]'' msg) = is_in ''PlayniteSound'' msg"
proof -
  have aa: "is_in ''UniPlaySong'' ''UniPlaySong''" by code_simp
  have ab: "\<not> is_in ''UniPlaySong'' ''PlayniteSound''" by code_simp
  have au: "\<not> is_in ''UniPlaySong'' ''Unknown''" by code_simp
  have bb: "is_in ''PlayniteSound'' ''PlayniteSound''" by code_simp
  have bu: "\<not> is_in ''PlayniteSound'' ''Unknown''" by code_simp
  have ba: "is_in ''[UniPlaySong]'' msg \<Longrightarrow> is_in ''UniPlaySong'' msg"
    using is_in_bracketed [of "''UniPlaySong''" msg] by simp
  have bp: "is_in ''[PlayniteSound]'' msg \<Longrightarrow> is_in ''PlayniteSound'' msg"
    using is_in_bracketed [of "''PlayniteSound''" msg] by simp
  show "(is_in ''UniPlaySong'' hint \<or> is_in ''[UniPlaySong]'' msg) = is_in ''UniPlaySong'' msg"
    unfolding assms infer_extension_name_def using aa ab au ba by (auto split: if_splits)
  show "(is_in ''PlayniteSound'' hint \<or> is_in ''[PlayniteSound]'' msg) = is_in ''PlayniteSound'' msg"
    if "\<not> is_in ''UniPlaySong'' msg"
    unfolding assms infer_extension_name_def using that bb bu ba bp
    by (auto split: if_splits)
qed

lemma line_event_extension:
  assumes "recognize (strip raw) = Some (ts, lvl, hint, msg)"
    and "parse_timestamp ts = Inr (Some t)"
  shows "(\<exists>ev. line_event raw = Inr (Some ev) \<and> extension ev = x)
           = (determine_extension hint msg = x \<and> x \<noteq> UNKNOWN)"
    and "(line_event raw = Inr None) = (determine_extension hint msg = UNKNOWN)"
proof -
  show "(\<exists>ev. line_event raw = Inr (Some ev) \<and> extension ev = x)
           = (determine_extension hint msg = x \<and> x \<noteq> UNKNOWN)"
  proof (cases "determine_extension hint msg = UNKNOWN")
    case True
    from line_event_unknown [OF assms(1) True] True show ?thesis by auto
  next
    case False
    from line_event_stored [OF assms False] False show ?thesis by auto
  qed
  show "(line_event raw = Inr None) = (determine_extension hint msg = UNKNOWN)"
  proof (cases "determine_extension hint msg = UNKNOWN")
    case True
    from line_event_unknown [OF assms(1) True] True show ?thesis by simp
  next
    case False
    from line_event_stored [OF assms False] False show ?thesis by simp
  qed
qed

text \<open>
  C9 (as amended). Source resolution prefers extension A. The marker of an extension is
  its name in the source-hint, its bracketed name in the message, and, for a line that
  is not in the tabular format, its bare name in the message. A recognized line with a
  timestamp that parses is stored for A exactly when it carries the marker of A, whether
  or not it carries the marker of B; it is stored for B only when it carries the marker
  of B and not that of A, and dropped when it carries neither. A bare name in the message
  of a tabular line is no marker.
\<close>

theorem source_A_bias:
  "recognize (strip raw) = Some (ts, lvl, hint, msg) \<and> parse_timestamp ts = Inr (Some t) \<longrightarrow>
     ((\<exists>ev. line_event raw = Inr (Some ev) \<and> extension ev = UNIPLAYSONG)
        = (is_in ''UniPlaySong'' hint \<or> is_in ''[UniPlaySong]'' msg
           \<or> (re_match False log_pattern (strip raw) = None \<and> is_in ''UniPlaySong'' msg)))
     \<and> ((\<exists>ev. line_event raw = Inr (Some ev) \<and> extension ev = PLAYNITESOUND)
        = (\<not> (is_in ''UniPlaySong'' hint \<or> is_in ''[UniPlaySong]'' msg
               \<or> (re_match False log_pattern (strip raw) = None \<and> is_in ''UniPlaySong'' msg))
           \<and> (is_in ''PlayniteSound'' hint \<or> is_in ''[PlayniteSound]'' msg
               \<or> (re_match False log_pattern (strip raw) = None \<and> is_in ''PlayniteSound'' msg))))
     \<and> ((line_event raw = Inr None)
        = (\<not> (is_in ''UniPlaySong'' hint \<or> is_in ''[UniPlaySong]'' msg
               \<or> (re_match False log_pattern (strip raw) = None \<and> is_in ''UniPlaySong'' msg))
           \<and> \<not> (is_in ''PlayniteSound'' hint \<or> is_in ''[PlayniteSound]'' msg
               \<or> (re_match False log_pattern (strip raw) = None \<and> is_in ''PlayniteSound'' msg))))
     \<and> ((is_in ''UniPlaySong'' hint \<or> is_in ''[UniPlaySong]'' msg
           \<or> (re_match False log_pattern (strip raw) = None \<and> is_in ''UniPlaySong'' msg))
         \<and> (is_in ''PlayniteSound'' hint \<or> is_in ''[PlayniteSound]'' msg
           \<or> (re_match False log_pattern (strip raw) = None \<and> is_in ''PlayniteSound'' msg))
         \<longrightarrow> (\<exists>ev. line_event raw = Inr (Some ev) \<and> extension ev = UNIPLAYSONG))"
proof -
  let ?A = "is_in ''UniPlaySong'' hint \<or> is_in ''[UniPlaySong]'' msg"
  let ?B = "is_in ''PlayniteSound'' hint \<or> is_in ''[PlayniteSound]'' msg"
  let ?bare = "re_match False log_pattern (strip raw) = None"
  have "((\<exists>ev. line_event raw = Inr (Some ev) \<and> extension ev = UNIPLAYSONG) = ?A)
      \<and> ((\<exists>ev. line_event raw = Inr (Some ev) \<and> extension ev = PLAYNITESOUND) = (\<not> ?A \<and> ?B))
      \<and> ((line_event raw = Inr None) = (\<not> ?A \<and> \<not> ?B))
      \<and> ((?A \<or> (?bare \<and> is_in ''UniPlaySong'' msg)) = ?A)
      \<and> (\<not> ?A \<longrightarrow> (?B \<or> (?bare \<and> is_in ''PlayniteSound'' msg)) = ?B)"
    if a: "recognize (strip raw) = Some (ts, lvl, hint, msg) \<and> parse_timestamp ts = Inr (Some t)"
  proof -
  from a have r: "recognize (strip raw) = Some (ts, lvl, hint, msg)"
    and p: "parse_timestamp ts = Inr (Some t)" by simp_all
  have ma: "(?A \<or> (?bare \<and> is_in ''UniPlaySong'' msg)) = ?A"
    using inferred_markers(1) [OF recognize_inferred [OF _ r]] by blast
  have mb: "\<not> ?A \<Longrightarrow> (?B \<or> (?bare \<and> is_in ''PlayniteSound'' msg)) = ?B"
    using inferred_markers [OF recognize_inferred [OF _ r]] by blast
  have ea: "(\<exists>ev. line_event raw = Inr (Some ev) \<and> extension ev = UNIPLAYSONG) = ?A"
    by (simp add: line_event_extension(1) [OF r p] determine_extension_def)
  have eb: "(\<exists>ev. line_event raw = Inr (Some ev) \<and> extension ev = PLAYNITESOUND) = (\<not> ?A \<and> ?B)"
    by (simp add: line_event_extension(1) [OF r p] determine_extension_def)
  have en: "(line_event raw = Inr None) = (\<not> ?A \<and> \<not> ?B)"
    by (simp add: line_event_extension(2) [OF r p] determine_extension_def)
  from ma mb ea eb en show ?thesis by blast
  qed
  then show ?thesis by blast
qed

text \<open>
  A line in the bracketed format whose message names B before A is stored for A; a
  tabular line whose source field names B and whose message has the bracketed name of A
  is stored for A as well.
\<close>

theorem source_A_bias_witness:
  "recognize (strip ''[2024-01-01 10:00:00.000] [INFO] PlayniteSound then UniPlaySong'')
     = Some (''2024-01-01 10:00:00.000'', ''INFO'', ''UniPlaySong'',
             ''PlayniteSound then UniPlaySong'')
   \<and> parse_timestamp ''2024-01-01 10:00:00.000'' = Inr (Some 63839700000000000)
   \<and> re_match False log_pattern
        (strip ''[2024-01-01 10:00:00.000] [INFO] PlayniteSound then UniPlaySong'') = None
   \<and> is_in ''UniPlaySong'' ''PlayniteSound then UniPlaySong''
   \<and> is_in ''PlayniteSound'' ''PlayniteSound then UniPlaySong''
   \<and> (\<exists>ev. line_event ''[2024-01-01 10:00:00.000] [INFO] PlayniteSound then UniPlaySong''
             = Inr (Some ev) \<and> extension ev = UNIPLAYSONG)"
proof -
  let ?l = "''[2024-01-01 10:00:00.000] [INFO] PlayniteSound then UniPlaySong''"
  let ?m = "''PlayniteSound then UniPlaySong''"
  have r: "recognize (strip ?l) = Some (''2024-01-01 10:00:00.000'', ''INFO'', ''UniPlaySong'', ?m)"
    by code_simp
  have p: "parse_timestamp ''2024-01-01 10:00:00.000'' = Inr (Some 63839700000000000)"
    by code_simp
  have n: "re_match False log_pattern (strip ?l) = None" by code_simp
  have a: "is_in ''UniPlaySong'' ?m" by code_simp
  have b: "is_in ''PlayniteSound'' ?m" by code_simp
  from source_A_bias [of ?l "''2024-01-01 10:00:00.000''" "''INFO''" "''UniPlaySong''" ?m
      63839700000000000] r p n a b
  have "\<exists>ev. line_event ?l = Inr (Some ev) \<and> extension ev = UNIPLAYSONG" by blast
  with r p n a b show ?thesis by (intro conjI)
qed

text \<open>
  A tabular line whose source field names B and whose message contains the name of A:
  both names are there, and the event is stored for B.
\<close>

theorem tabular_bare_name_counterexample:
  "recognize (strip ''2024-01-01 10:00:00.000 | INFO | PlayniteSound | UniPlaySong hello'')
     = Some (''2024-01-01 10:00:00.000'', ''INFO'', ''PlayniteSound'', ''UniPlaySong hello'')
   \<and> is_in ''PlayniteSound'' ''PlayniteSound''
   \<and> is_in ''UniPlaySong'' ''UniPlaySong hello''
   \<and> map_sum id (map_option extension)
        (line_event ''2024-01-01 10:00:00.000 | INFO | PlayniteSound | UniPlaySong hello'')
     = Inr (Some PLAYNITESOUND)"
  by code_simp

section \<open>Timeline windows\<close>

lemma append_to_window_sound:
  "(k, es) \<in> set (append_to_window w e tw) \<Longrightarrow> x \<in> set es
     \<Longrightarrow> (k = w \<and> x = e) \<or> (\<exists>es'. (k, es') \<in> set tw \<and> x \<in> set es')"
  by (induction w e tw rule: append_to_window.induct) (auto split: if_split_asm)

lemma append_to_window_new: "\<exists>es. (w, es) \<in> set (append_to_window w e tw) \<and> e \<in> set es"
  by (induction w e tw rule: append_to_window.induct) auto

lemma append_to_window_keeps:
  "(k, es) \<in> set tw \<Longrightarrow> x \<in> set es
     \<Longrightarrow> \<exists>es'. (k, es') \<in> set (append_to_window w e tw) \<and> x \<in> set es'"
  by (induction w e tw rule: append_to_window.induct) auto

lemma append_to_window_keys:
  "fst ` set (append_to_window w e tw) = insert w (fst ` set tw)"
  by (induction w e tw rule: append_to_window.induct) auto

lemma append_to_window_distinct:
  "distinct (map fst tw) \<Longrightarrow> distinct (map fst (append_to_window w e tw))"
  by (induction w e tw rule: append_to_window.induct) (auto simp: append_to_window_keys)

lemma windows_sound:
  "(k, es) \<in> set (foldl (\<lambda>tw e. append_to_window (f e) e tw) tw0 xs) \<Longrightarrow> x \<in> set es
     \<Longrightarrow> (x \<in> set xs \<and> k = f x) \<or> (\<exists>es'. (k, es') \<in> set tw0 \<and> x \<in> set es')"
proof (induction xs arbitrary: tw0)
  case Nil
  then show ?case by auto
next
  case (Cons y ys)
  from Cons.IH [of "append_to_window (f y) y tw0"] Cons.prems
  have "(x \<in> set ys \<and> k = f x)
      \<or> (\<exists>es'. (k, es') \<in> set (append_to_window (f y) y tw0) \<and> x \<in> set es')"
    by simp
  then show ?case
  proof
    assume "x \<in> set ys \<and> k = f x"
    then show ?thesis by simp
  next
    assume "\<exists>es'. (k, es') \<in> set (append_to_window (f y) y tw0) \<and> x \<in> set es'"
    then obtain es' where "(k, es') \<in> set (append_to_window (f y) y tw0)" "x \<in> set es'"
      by blast
    from append_to_window_sound [OF this] show ?thesis by auto
  qed
qed

lemma windows_keep:
  "(k, es) \<in> set tw0 \<Longrightarrow> x \<in> set es
     \<Longrightarrow> \<exists>es'. (k, es') \<in> set (foldl (\<lambda>tw e. append_to_window (f e) e tw) tw0 xs)
            \<and> x \<in> set es'"
proof (induction xs arbitrary: tw0 es)
  case Nil
  then show ?case by auto
next
  case (Cons y ys)
  from append_to_window_keeps [OF Cons.prems]
  obtain es1 where "(k, es1) \<in> set (append_to_window (f y) y tw0)" "x \<in> set es1" by blast
  from Cons.IH [OF this] show ?case by simp
qed

lemma windows_complete:
  "x \<in> set xs
     \<Longrightarrow> \<exists>es. (f x, es) \<in> set (foldl (\<lambda>tw e. append_to_window (f e) e tw) tw0 xs) \<and> x \<in> set es"
proof (induction xs arbitrary: tw0)
  case Nil
  then show ?case by simp
next
  case (Cons y ys)
  show ?case
  proof (cases "x = y")
    case True
    from append_to_window_new [of "f y" y tw0]
    obtain es1 where "(f y, es1) \<in> set (append_to_window (f y) y tw0)" "y \<in> set es1" by blast
    from windows_keep [OF this] True show ?thesis by simp
  next
    case False
    with Cons.prems have "x \<in> set ys" by simp
    from Cons.IH [OF this] show ?thesis by simp
  qed
qed

lemma windows_distinct:
  "distinct (map fst tw0)
     \<Longrightarrow> distinct (map fst (foldl (\<lambda>tw e. append_to_window (f e) e tw) tw0 xs))"
  by (induction xs arbitrary: tw0) (simp_all add: append_to_window_distinct)

lemma sort_key_first_least:
  assumes "sort_key f xs = y # ys"
  shows "y \<in> set xs \<and> (\<forall>x \<in> set xs. f y \<le> f x)"
proof -
  have "sorted (map f (sort_key f xs))" by (rule sorted_sort_key)
  with assms have "\<forall>x \<in> set (y # ys). f y \<le> f x" by auto
  moreover have "set (y # ys) = set xs" using assms set_sort [of f xs] by simp
  ultimately show ?thesis by auto
qed

lemma sort_key_first_Min:
  assumes "sort_key f xs = y # ys"
  shows "f y = Min (f ` set xs)"
proof -
  from sort_key_first_least [OF assms] have "f y \<in> f ` set xs" "\<forall>v \<in> f ` set xs. f y \<le> v"
    by auto
  then show ?thesis by (intro Min_eqI [symmetric]) auto
qed

lemma int_seconds_floor:
  "0 \<le> us \<Longrightarrow> int_seconds us = us div 1000000
     \<and> int_seconds us * 1000000 \<le> us \<and> us < (int_seconds us + 1) * 1000000"
proof -
  assume "0 \<le> us"
  then have "int_seconds us = us div 1000000" by (simp add: int_seconds_def)
  moreover have "us div 1000000 * 1000000 \<le> us" by simp
  moreover have "us < (us div 1000000 + 1) * 1000000"
    using pos_mod_bound [of 1000000 us] by (simp add: algebra_simps div_mult_mod_eq [symmetric])
  ultimately show ?thesis by simp
qed

lemma timeline_windows_eq:
  assumes "events st \<noteq> []"
  shows "timeline_windows st =
           time_windows (Min (timestamp ` set (events st))) (sort_key timestamp (events st))"
proof (cases "sort_key timestamp (events st)")
  case Nil
  then have "length (sort_key timestamp (events st)) = 0" by simp
  with assms show ?thesis by simp
next
  case (Cons first rest)
  from sort_key_first_Min [OF Cons] Cons show ?thesis
    by (simp add: timeline_windows_def)
qed

text \<open>
  C5. In the timeline report every stored event is put in a window, the window indices
  are distinct, and the index of the window of an event is the number of whole seconds,
  rounded down, from the least timestamp of all stored events to its own: the event lies
  in the half-open second that starts \<open>w\<close> seconds after that anchor.
\<close>

theorem timeline_window_index:
  "events st \<noteq> [] \<longrightarrow>
     distinct (map fst (timeline_windows st))
     \<and> (\<forall>e \<in> set (events st). \<exists>w es. (w, es) \<in> set (timeline_windows st) \<and> e \<in> set es)
     \<and> (\<forall>w es e. (w, es) \<in> set (timeline_windows st) \<and> e \<in> set es \<longrightarrow>
           e \<in> set (events st)
           \<and> w = (timestamp e - Min (timestamp ` set (events st))) div 1000000
           \<and> w * 1000000 \<le> timestamp e - Min (timestamp ` set (events st))
           \<and> timestamp e - Min (timestamp ` set (events st)) < (w + 1) * 1000000)"
proof (intro impI conjI ballI allI)
  assume ne: "events st \<noteq> []"
  let ?b = "Min (timestamp ` set (events st))"
  let ?f = "\<lambda>e. int_seconds (timestamp e - ?b)"
  have tw: "timeline_windows st
      = foldl (\<lambda>tw e. append_to_window (?f e) e tw) [] (sort_key timestamp (events st))"
    by (simp add: timeline_windows_eq [OF ne] time_windows_def)
  show "distinct (map fst (timeline_windows st))"
    unfolding tw by (rule windows_distinct) simp
  {
    fix e
    assume "e \<in> set (events st)"
    then have "e \<in> set (sort_key timestamp (events st))" by simp
    from windows_complete [OF this, of ?f "[]"]
    show "\<exists>w es. (w, es) \<in> set (timeline_windows st) \<and> e \<in> set es"
      unfolding tw by blast
  }
  {
    fix w es e
    assume "(w, es) \<in> set (timeline_windows st) \<and> e \<in> set es"
    then have "(w, es) \<in> set (foldl (\<lambda>tw e. append_to_window (?f e) e tw) []
        (sort_key timestamp (events st)))" and "e \<in> set es"
      unfolding tw by simp_all
    from windows_sound [OF this] have e: "e \<in> set (events st)" and w: "w = ?f e" by auto
    from e have "?b \<le> timestamp e" by simp
    then have "0 \<le> timestamp e - ?b" by simp
    from int_seconds_floor [OF this] w e
    show "e \<in> set (events st)"
      and "w = (timestamp e - ?b) div 1000000"
      and "w * 1000000 \<le> timestamp e - ?b"
      and "timestamp e - ?b < (w + 1) * 1000000"
      by simp_all
  }
qed

text \<open>
  Five events, at the anchor and 0.2, 0.9, 1.1 and 2.0 seconds after it, stored out of
  order: their windows are 0, 0, 0, 1 and 2.
\<close>

theorem timeline_window_index_witness:
  "events \<lparr>events = map (\<lambda>t. \<lparr>timestamp = t, extension = UNIPLAYSONG, event_type = OTHER,
                                 message = [], raw_line = [], metadata = []\<rparr>)
                       [63839700002000000, 63839700000200000, 63839700000000000,
                        63839700001100000, 63839700000900000],
           uniplaysong_events = [], playnitesound_events = []\<rparr> \<noteq> []
   \<and> map (\<lambda>(w, es). (w, map (\<lambda>e. timestamp e - 63839700000000000) es))
        (sort_key fst (timeline_windows
          \<lparr>events = map (\<lambda>t. \<lparr>timestamp = t, extension = UNIPLAYSONG, event_type = OTHER,
                                  message = [], raw_line = [], metadata = []\<rparr>)
                        [63839700002000000, 63839700000200000, 63839700000000000,
                         63839700001100000, 63839700000900000],
            uniplaysong_events = [], playnitesound_events = []\<rparr>))
     = [(0, [0, 200000, 900000]), (1, [1100000]), (2, [2000000])]
   \<and> list_all (\<lambda>(w, es). list_all (\<lambda>e. w = (timestamp e - 63839700000000000) div 1000000) es)
        (timeline_windows
          \<lparr>events = map (\<lambda>t. \<lparr>timestamp = t, extension = UNIPLAYSONG, event_type = OTHER,
                                  message = [], raw_line = [], metadata = []\<rparr>)
                        [63839700002000000, 63839700000200000, 63839700000000000,
                         63839700001100000, 63839700000900000],
            uniplaysong_events = [], playnitesound_events = []\<rparr>)"
proof -
  let ?st = "\<lparr>events = map (\<lambda>t. \<lparr>timestamp = t, extension = UNIPLAYSONG, event_type = OTHER,
                                    message = [], raw_line = [], metadata = []\<rparr>)
                          [63839700002000000, 63839700000200000, 63839700000000000,
                           63839700001100000, 63839700000900000],
              uniplaysong_events = [], playnitesound_events = []\<rparr>"
  have ne: "events ?st \<noteq> []" by simp
  have anchor: "Min (timestamp ` set (events ?st)) = 63839700000000000" by simp
  have windows: "map (\<lambda>(w, es). (w, map (\<lambda>e. timestamp e - 63839700000000000) es))
      (sort_key fst (timeline_windows ?st))
      = [(0, [0, 200000, 900000]), (1, [1100000]), (2, [2000000])]"
    by code_simp
  from timeline_window_index [of ?st] ne
  have "\<forall>w es e. (w, es) \<in> set (timeline_windows ?st) \<and> e \<in> set es \<longrightarrow>
      w = (timestamp e - Min (timestamp ` set (events ?st))) div 1000000"
    by blast
  then have "list_all (\<lambda>(w, es). list_all
      (\<lambda>e. w = (timestamp e - Min (timestamp ` set (events ?st))) div 1000000) es)
      (timeline_windows ?st)"
    by (auto simp only: list_all_iff)
  then have "list_all (\<lambda>(w, es). list_all
      (\<lambda>e. w = (timestamp e - 63839700000000000) div 1000000) es) (timeline_windows ?st)"
    by (simp only: anchor)
  with ne windows show ?thesis by (intro conjI)
qed

section \<open>The comparison report\<close>















text \<open>
  C7, at an input where the first stored event is not the earliest. The listing of the
  \<^verbatim>\<open>_firstSelect\<close> events takes its offsets from \<^verbatim>\<open>self.events[0]\<close>, the first event
  stored: the event of extension A below is one second after the earliest stored event,
  and its offset in the report is 0.
\<close>

theorem comparison_offsets_from_first_stored:
  "(let st = fst (parse_lines init
      [''2024-01-01 10:00:01.000 | INFO | UniPlaySong | _firstSelect: true'',
       ''2024-01-01 10:00:00.000 | INFO | PlayniteSound | OnGameSelected''])
    in (map timestamp (events st),
        map timestamp (of_type FIRST_SELECT_STATE (uniplaysong_events st)),
        create_comparison_report st))
   = ([63839700001000000, 63839700000000000], [63839700001000000],
      Inr [Text ''SIDE-BY-SIDE COMPARISON'', Text ''OnGameSelected Events:'',
           Count ''UniPlaySong'' 0, Count ''PlayniteSound'' 1,
           Text ''VideoIsPlaying Changes:'', Count ''UniPlaySong'' 0, Count ''PlayniteSound'' 0,
           Text ''_firstSelect State Changes:'', Count ''UniPlaySong'' 1,
           Count ''PlayniteSound'' 0,
           Text ''UniPlaySong _firstSelect changes:'',
           Offset 0 ''_firstSelect: true''])"
  by code_simp

end
